theory Spec2Isabelle
  imports Complex_Main "HOL-Library.Word" "HOL-Library.AList"
begin

section \<open>Common data: Python errors, noise types\<close>

text \<open>
  Every \<^verbatim>\<open>raise\<close> of the source, and every exception a Python operation of the source
  can throw, is a value of this type; a function that can raise returns
  \<open>error + 'a\<close>, with \<open>Inl\<close> for the exception.
\<close>

datatype error =
    NotImplementedError
  | AttributeError
  | ValueError
  | IndexError
  | KeyError
  | TypeError
  | AssertionError

text \<open>
  \<^verbatim>\<open>constants.NO_NOISE\<close>, \<^verbatim>\<open>constants.EPSILON_IRRELEVANT\<close> and
  \<^verbatim>\<open>constants.ADDITIVE_GAUSSIAN\<close> are three distinct strings of the module
  \<^verbatim>\<open>mihifepe.constants\<close>; the code only compares a noise type with them by \<^verbatim>\<open>==\<close>.
  \<open>OTHER_NOISE s\<close> is any other value of \<^verbatim>\<open>noise_type\<close>.
\<close>

datatype noise_type =
    NO_NOISE
  | EPSILON_IRRELEVANT
  | ADDITIVE_GAUSSIAN
  | OTHER_NOISE string

section \<open>model.py: the perturbed model\<close>

text \<open>
  The values \<^verbatim>\<open>Model.predict\<close> handles are NumPy's: \<open>'x\<close> is the type of the arrays passed
  as \<^verbatim>\<open>static_data\<close> (two arrays are equal when they have the same dtype, shape and
  contents), \<open>'f\<close> the type of \<^verbatim>\<open>float64\<close> values and \<open>'g\<close> the type of the states of a
  \<^verbatim>\<open>RandomState\<close>. Nothing is assumed of \<^verbatim>\<open>float64\<close> arithmetic: its operations round,
  overflow to \<^verbatim>\<open>inf\<close> and underflow to zero, and the model takes them from the library.

  The second argument of \<^verbatim>\<open>model_fn\<close>: a column of one noise coefficient per
  feature (\<^verbatim>\<open>EPSILON_IRRELEVANT\<close>), or one scalar (\<^verbatim>\<open>ADDITIVE_GAUSSIAN\<close>).
\<close>

datatype 'f noise = NoiseColumn "'f list" | NoiseScalar 'f

text \<open>
  The library calls of \<^verbatim>\<open>Model.predict\<close>:
  \<^item> \<open>tobytes\<close>: \<^verbatim>\<open>static_data.data.tobytes()\<close>, the raw bytes of the array's buffer;
  \<^item> \<open>array_size\<close>: \<^verbatim>\<open>static_data.size\<close>, the number of elements;
  \<^item> \<open>hashxx\<close>: \<^verbatim>\<open>pyhashxx.hashxx\<close>, a 32-bit hash of a byte string;
  \<^item> \<open>RandomState\<close>: \<^verbatim>\<open>np.random.RandomState(seed)\<close>, the state of a new generator;
  \<^item> \<open>prg_uniform g low high n\<close>: \<^verbatim>\<open>prg.uniform(low, high, (n, 1))\<close> with \<^verbatim>\<open>prg\<close> in state
    \<open>g\<close>, as the \<open>n\<close> values drawn and the next state;
  \<^item> \<open>prg_normal g loc scale\<close>: \<^verbatim>\<open>prg.normal(loc, scale)\<close>, the value drawn and the next
    state; it raises for a negative scale;
  \<^item> \<open>np_multiply\<close>, \<open>np_subtract\<close>, \<open>np_power\<close>, \<open>np_sqrt\<close>: \<^verbatim>\<open>*\<close>, \<^verbatim>\<open>-\<close>, \<^verbatim>\<open>np.power\<close> and
    \<^verbatim>\<open>np.sqrt\<close> on \<^verbatim>\<open>float64\<close> values.
  A generator draws from its own state only: that is the library's contract, and the
  only thing the model takes from it.
\<close>

record ('x, 'f, 'g) library =
  tobytes :: "'x \<Rightarrow> 8 word list"
  array_size :: "'x \<Rightarrow> nat"
  hashxx :: "8 word list \<Rightarrow> 32 word"
  RandomState :: "32 word \<Rightarrow> 'g"
  prg_uniform :: "'g \<Rightarrow> int \<Rightarrow> int \<Rightarrow> nat \<Rightarrow> 'f list \<times> 'g"
  prg_normal :: "'g \<Rightarrow> int \<Rightarrow> 'f \<Rightarrow> error + ('f \<times> 'g)"
  np_multiply :: "'f \<Rightarrow> 'f \<Rightarrow> 'f"
  np_subtract :: "'f \<Rightarrow> 'f \<Rightarrow> 'f"
  np_power :: "'f \<Rightarrow> int \<Rightarrow> 'f"
  np_sqrt :: "'f \<Rightarrow> 'f"

text \<open>
  The class \<^verbatim>\<open>Model\<close>: the three attributes set by \<^verbatim>\<open>__init__\<close>. \<^verbatim>\<open>model_fn\<close> is a function
  of its two arguments, as the lambdified polynomial is that \<^verbatim>\<open>gen_model\<close> passes.
\<close>

record ('x, 'f) model =
  model_fn :: "'x \<Rightarrow> 'f noise \<Rightarrow> error + 'f list"
  noise_multiplier :: 'f
  noise_type :: noise_type

text \<open>\<^verbatim>\<open>xs[0]\<close>: the first element, \<^verbatim>\<open>IndexError\<close> on an empty array.\<close>

definition first :: "error + 'a list \<Rightarrow> error + 'a" where
  "first r = (case r of Inl e \<Rightarrow> Inl e | Inr [] \<Rightarrow> Inl IndexError | Inr (x # _) \<Rightarrow> Inr x)"

text \<open>The local \<^verbatim>\<open>hashval\<close> of \<^verbatim>\<open>predict\<close>, the seed of its random source.\<close>

definition predict_seed :: "('x, 'f, 'g) library \<Rightarrow> 'x \<Rightarrow> 32 word" where
  "predict_seed lib static_data = hashxx lib (tobytes lib static_data)"

text \<open>
  The noise \<^verbatim>\<open>predict\<close> draws from its local generator \<^verbatim>\<open>prg\<close> and hands to \<^verbatim>\<open>model_fn\<close>;
  the \<^verbatim>\<open>else\<close> branch raises \<^verbatim>\<open>NotImplementedError("Unknown noise type")\<close>. The state of
  \<^verbatim>\<open>prg\<close> after the draw is dropped with the local.
\<close>

definition predict_noise ::
  "('x, 'f, 'g) library \<Rightarrow> ('x, 'f) model \<Rightarrow> 'x \<Rightarrow> error + 'f noise" where
  "predict_noise lib self static_data =
     (let hashval = predict_seed lib static_data;
          prg = RandomState lib hashval
      in
      if noise_type self = EPSILON_IRRELEVANT then
        (case prg_uniform lib prg (- 1) 1 (array_size lib static_data) of
           (us, prg') \<Rightarrow> Inr (NoiseColumn (map (np_multiply lib (noise_multiplier self)) us)))
      else if noise_type self = ADDITIVE_GAUSSIAN then
        (case prg_normal lib prg 0 (noise_multiplier self) of
           Inl e \<Rightarrow> Inl e
         | Inr (z, prg') \<Rightarrow> Inr (NoiseScalar z))
      else Inl NotImplementedError)"

text \<open>
  \<^verbatim>\<open>Model.predict(target, static_data, temporal_data)\<close>, called when NumPy's module-level
  generator (the one behind \<^verbatim>\<open>np.random.uniform\<close> and \<^verbatim>\<open>np.random.seed\<close>) is in state
  \<open>np_random\<close>. The result is the pair \<^verbatim>\<open>(loss, prediction)\<close> or the exception raised,
  with \<^verbatim>\<open>loss = np.sqrt(np.power(prediction - target, 2))\<close>, and the state of the
  module-level generator after the call.
\<close>

definition predict ::
  "('x, 'f, 'g) library \<Rightarrow> ('x, 'f) model \<Rightarrow> 'g \<Rightarrow> 'f \<Rightarrow> 'x \<Rightarrow> 't
     \<Rightarrow> (error + ('f \<times> 'f)) \<times> 'g" where
  "predict lib self np_random target static_data temporal_data =
     ((case predict_noise lib self static_data of
         Inl e \<Rightarrow> Inl e
       | Inr noise \<Rightarrow>
           (case first (model_fn self static_data noise) of
              Inl e \<Rightarrow> Inl e
            | Inr prediction \<Rightarrow>
                Inr (np_sqrt lib (np_power lib (np_subtract lib prediction target) 2),
                     prediction))),
      np_random)"

text \<open>The prediction alone: the second component of a result.\<close>

definition prediction_of :: "error + ('f \<times> 'f) \<Rightarrow> error + 'f" where
  "prediction_of r = (case r of Inl e \<Rightarrow> Inl e | Inr (loss, prediction) \<Rightarrow> Inr prediction)"

text \<open>
  A library and a model for concrete runs. An array is a dtype and the bytes of its
  buffer, eight for an element; the arithmetic is exact, on reals; the state
  of a generator is the number it draws next, raised by one with every draw.
\<close>

type_synonym demo_array = "string \<times> 8 word list"

definition demo_library :: "(demo_array, real, int) library" where
  "demo_library =
     \<lparr>tobytes = snd,
      array_size = (\<lambda>a. length (snd a) div 8),
      hashxx = (\<lambda>bs. of_nat (length bs)),
      RandomState = uint,
      prg_uniform = (\<lambda>g low high n. (map (\<lambda>i. of_int (g + int i) / 100) [0..<n], g + int n)),
      prg_normal = (\<lambda>g loc scale.
         if scale < 0 then Inl ValueError else Inr (of_int loc + scale * of_int g, g + 1)),
      np_multiply = (*),
      np_subtract = (-),
      np_power = (\<lambda>x n. x ^ nat n),
      np_sqrt = sqrt\<rparr>"

definition demo_model_fn :: "demo_array \<Rightarrow> real noise \<Rightarrow> error + real list" where
  "demo_model_fn a nz =
     (let x = (if fst a = ''int64'' then 1 else 2) in
      case nz of
        NoiseColumn ns \<Rightarrow> Inr [x + sum_list ns]
      | NoiseScalar z \<Rightarrow> Inr [x + z])"

definition demo_model :: "noise_type \<Rightarrow> (demo_array, real) model" where
  "demo_model nt = \<lparr>model_fn = demo_model_fn, noise_multiplier = 2, noise_type = nt\<rparr>"

text \<open>Two arrays with the same buffer, of different dtypes.\<close>

definition demo_int64 :: demo_array where
  "demo_int64 = (''int64'', [1, 0, 0, 0, 0, 0, 0, 0])"

definition demo_float64 :: demo_array where
  "demo_float64 = (''float64'', [1, 0, 0, 0, 0, 0, 0, 0])"

section \<open>Python strings of integers\<close>

text \<open>
  \<^verbatim>\<open>str(n)\<close> for an integer: its decimal digits, with a minus sign when negative.
\<close>

definition digit_char :: "nat \<Rightarrow> char" where
  "digit_char d = char_of (48 + d)"

fun str_nat :: "nat \<Rightarrow> string" where
  "str_nat n = (if n < 10 then [digit_char n] else str_nat (n div 10) @ [digit_char (n mod 10)])"

declare str_nat.simps [simp del]

definition str :: "int \<Rightarrow> string" where
  "str i = (if i < 0 then CHR ''-'' # str_nat (nat (- i)) else str_nat (nat i))"

text \<open>
  \<^verbatim>\<open>int(s)\<close> for a string, in base ten: blanks around the literal are dropped, one sign may
  lead, and the digits may be grouped by single underscores; anything else raises
  \<^verbatim>\<open>ValueError\<close>. (Python also reads the decimal digits of other scripts; the strings
  here are ASCII.)
\<close>

definition digit_of :: "char \<Rightarrow> nat option" where
  "digit_of c = (let k = (of_char c :: nat) in if 48 \<le> k \<and> k \<le> 57 then Some (k - 48) else None)"

definition is_space :: "char \<Rightarrow> bool" where
  "is_space c = ((of_char c :: nat) \<in> {9, 10, 11, 12, 13, 32})"

definition strip :: "string \<Rightarrow> string" where
  "strip s = rev (dropWhile is_space (rev (dropWhile is_space s)))"

text \<open>
  The digits after the first one: \<open>acc\<close> is the value read so far; an underscore must be
  followed by a digit.
\<close>

fun digits_value :: "nat \<Rightarrow> string \<Rightarrow> nat option" where
  "digits_value acc [] = Some acc"
| "digits_value acc (c # cs) =
     (if c = CHR ''_'' then
        (case cs of
           [] \<Rightarrow> None
         | d # ds \<Rightarrow>
             (case digit_of d of
                None \<Rightarrow> None
              | Some v \<Rightarrow> digits_value (10 * acc + v) ds))
      else
        (case digit_of c of
           None \<Rightarrow> None
         | Some v \<Rightarrow> digits_value (10 * acc + v) cs))"

definition literal_value :: "string \<Rightarrow> nat option" where
  "literal_value s =
     (case s of
        [] \<Rightarrow> None
      | c # cs \<Rightarrow> (case digit_of c of None \<Rightarrow> None | Some v \<Rightarrow> digits_value v cs))"

definition py_int :: "string \<Rightarrow> error + int" where
  "py_int s =
     (case strip s of
        [] \<Rightarrow> Inl ValueError
      | c # cs \<Rightarrow>
          if c = CHR ''-'' then
            (case literal_value cs of None \<Rightarrow> Inl ValueError | Some n \<Rightarrow> Inr (- int n))
          else if c = CHR ''+'' then
            (case literal_value cs of None \<Rightarrow> Inl ValueError | Some n \<Rightarrow> Inr (int n))
          else
            (case literal_value (c # cs) of None \<Rightarrow> Inl ValueError | Some n \<Rightarrow> Inr (int n)))"

text \<open>A decimal digit, and the number that a string of digits reads as after \<open>acc\<close>.\<close>

definition is_digit :: "char \<Rightarrow> bool" where
  "is_digit c = (digit_of c \<noteq> None)"

definition digits_number :: "nat \<Rightarrow> string \<Rightarrow> nat" where
  "digits_number acc cs = foldl (\<lambda>v c. 10 * v + the (digit_of c)) acc cs"

text \<open>
  Subscripting a sequence of length \<open>n\<close> by an integer \<open>i\<close>, as Python and NumPy do it:
  \<open>0 \<le> i < n\<close> reads position \<open>i\<close>, \<open>- n \<le> i < 0\<close> reads position \<open>n + i\<close>, and every
  other \<open>i\<close> is an \<^verbatim>\<open>IndexError\<close>.
\<close>

definition py_index :: "'a list \<Rightarrow> int \<Rightarrow> error + 'a" where
  "py_index xs i =
     (if 0 \<le> i \<and> i < int (length xs) then Inr (xs ! nat i)
      else if - int (length xs) \<le> i \<and> i < 0 then Inr (xs ! nat (int (length xs) + i))
      else Inl IndexError)"

section \<open>Trees (anytree)\<close>

text \<open>
  An \<^verbatim>\<open>anytree\<close> node: its attributes and its children, in order. A node is a leaf when it
  has no children. \<^verbatim>\<open>PostOrderIter\<close> yields every child's subtree, left to right, and then
  the node; \<^verbatim>\<open>PreOrderIter\<close> yields the node first.
\<close>

datatype 'a tree = Node (attrs: 'a) (children: "'a tree list")

definition is_leaf :: "'a tree \<Rightarrow> bool" where
  "is_leaf t = (children t = [])"

fun PostOrderIter :: "'a tree \<Rightarrow> 'a tree list" where
  "PostOrderIter (Node a cs) = concat (map PostOrderIter cs) @ [Node a cs]"

fun PreOrderIter :: "'a tree \<Rightarrow> 'a tree list" where
  "PreOrderIter (Node a cs) = Node a cs # concat (map PreOrderIter cs)"

text \<open>The leaves below a node (the node itself when it is a leaf), left to right.\<close>

definition leaves :: "'a tree \<Rightarrow> 'a tree list" where
  "leaves t = filter is_leaf (PreOrderIter t)"

text \<open>
  The loops of the source over \<^verbatim>\<open>enumerate(anytree.PostOrderIter(root))\<close>. Each of them
  changes the attributes of the node it visits, reading only that node and its children
  (which were visited before), and may update one variable outside the tree. So a loop is
  its body: \<open>body idx st a cs'\<close> gets the index of the visit, the outer variable, the node's
  attributes and the node's children as the loop left them, and gives the node's new
  attributes and the outer variable, or raises. \<open>post_order_for\<close> runs the body over a tree
  from index \<open>idx\<close>; it returns the tree after the loop, the next index and the outer
  variable. An exception of the body ends the loop.
\<close>

fun post_order_for ::
    "(nat \<Rightarrow> 's \<Rightarrow> 'a \<Rightarrow> 'a tree list \<Rightarrow> error + ('a \<times> 's)) \<Rightarrow> nat \<Rightarrow> 's \<Rightarrow> 'a tree
       \<Rightarrow> error + ('a tree \<times> nat \<times> 's)"
  and post_order_for_list ::
    "(nat \<Rightarrow> 's \<Rightarrow> 'a \<Rightarrow> 'a tree list \<Rightarrow> error + ('a \<times> 's)) \<Rightarrow> nat \<Rightarrow> 's \<Rightarrow> 'a tree list
       \<Rightarrow> error + ('a tree list \<times> nat \<times> 's)"
where
  "post_order_for body idx st (Node a cs) =
     (case post_order_for_list body idx st cs of
        Inl e \<Rightarrow> Inl e
      | Inr (cs', idx', st') \<Rightarrow>
          (case body idx' st' a cs' of
             Inl e \<Rightarrow> Inl e
           | Inr (a', st'') \<Rightarrow> Inr (Node a' cs', Suc idx', st'')))"
| "post_order_for_list body idx st [] = Inr ([], idx, st)"
| "post_order_for_list body idx st (c # cs) =
     (case post_order_for body idx st c of
        Inl e \<Rightarrow> Inl e
      | Inr (c', idx', st') \<Rightarrow>
          (case post_order_for_list body idx' st' cs of
             Inl e \<Rightarrow> Inl e
           | Inr (cs', idx'', st'') \<Rightarrow> Inr (c' # cs', idx'', st'')))"

text \<open>
  \<^verbatim>\<open>[child.x for child in node.children]\<close>: the attribute \<open>x\<close> of every child;
  \<^verbatim>\<open>AttributeError\<close> when a child does not have it.
\<close>

fun getattrs :: "('a \<Rightarrow> 'b option) \<Rightarrow> 'a tree list \<Rightarrow> error + 'b list" where
  "getattrs x [] = Inr []"
| "getattrs x (c # cs) =
     (case x (attrs c) of
        None \<Rightarrow> Inl AttributeError
      | Some v \<Rightarrow> (case getattrs x cs of Inl e \<Rightarrow> Inl e | Inr vs \<Rightarrow> Inr (v # vs)))"

section \<open>The hierarchy and its relevance\<close>

text \<open>
  \<^verbatim>\<open>node.description\<close>. The code compares a description with \<^verbatim>\<open>constants.IRRELEVANT\<close> only;
  the values it writes are \<^verbatim>\<open>constants.IRRELEVANT\<close>, \<^verbatim>\<open>constants.RELEVANT\<close>, the text of a
  relevant feature with its coefficient and probability, and the text of an
  interaction-only feature. The four are taken as different strings.
\<close>

datatype description =
    IRRELEVANT
  | RELEVANT
  | RELEVANT_FEATURE real real
  | RELEVANT_INTERACTION_ONLY

text \<open>
  The attributes of a hierarchy node. \<open>name\<close> is set when the node is made;
  \<open>static_indices\<close> is set for the nodes made as leaves; the others are attached by the
  loops below, and reading one that is not there raises \<^verbatim>\<open>AttributeError\<close>.
\<close>

record attrs =
  name :: string
  static_indices :: "string option"
  idx :: "int option"
  min_child_idx :: "int option"
  max_child_idx :: "int option"
  num_base_features :: "int option"
  description :: "description option"
  poly_coeff :: "real option"
  bin_prob :: "real option"
  pvalue :: "real option"

text \<open>\<^verbatim>\<open>anytree.Node(name)\<close> and \<^verbatim>\<open>anytree.Node(name, static_indices=s)\<close>.\<close>

definition new_node :: "string \<Rightarrow> string option \<Rightarrow> attrs" where
  "new_node nm si =
     \<lparr>name = nm, static_indices = si, idx = None, min_child_idx = None, max_child_idx = None,
      num_base_features = None, description = None, poly_coeff = None, bin_prob = None,
      pvalue = None\<rparr>"

text \<open>
  The relevance map: a dictionary from frozen sets of feature indices to coefficients, as
  the list of its items; \<open>map_of\<close> is \<^verbatim>\<open>dict.get\<close>, \<open>AList.update\<close> is item assignment.
\<close>

type_synonym relevance_map = "(int set \<times> real) list"

text \<open>
  The first loop of \<^verbatim>\<open>update_hierarchy_relevance\<close>: the union of all keys.
\<close>

definition all_relevant_features :: "relevance_map \<Rightarrow> int set" where
  "all_relevant_features relevant_feature_map = \<Union> (set (map fst relevant_feature_map))"

text \<open>
  The truth value of the result of \<^verbatim>\<open>dict.get\<close> on a map of numbers, as in
  \<^verbatim>\<open>if coeff:\<close>: false for \<^verbatim>\<open>None\<close> (no such key) and for zero.
\<close>

definition truthy :: "real option \<Rightarrow> bool" where
  "truthy v = (case v of None \<Rightarrow> False | Some c \<Rightarrow> c \<noteq> 0)"

text \<open>The body of the second loop of \<^verbatim>\<open>update_hierarchy_relevance\<close>, for one node.\<close>

definition relevance_body ::
  "relevance_map \<Rightarrow> real list \<Rightarrow> nat \<Rightarrow> unit \<Rightarrow> attrs \<Rightarrow> attrs tree list \<Rightarrow> error + (attrs \<times> unit)" where
  "relevance_body relevant_feature_map probs k st node cs =
     (let node = node\<lparr>description := Some IRRELEVANT\<rparr> in
      if cs = [] then
        (case static_indices node of
           None \<Rightarrow> Inl AttributeError
         | Some s \<Rightarrow>
             (case py_int s of
                Inl e \<Rightarrow> Inl e
              | Inr i \<Rightarrow>
                  (case py_index probs i of
                     Inl e \<Rightarrow> Inl e
                   | Inr p \<Rightarrow>
                       (let node = node\<lparr>poly_coeff := Some 0, bin_prob := Some p\<rparr>;
                            coeff = map_of relevant_feature_map {i}
                        in if truthy coeff then
                             Inr (node\<lparr>poly_coeff := coeff,
                                        description := Some (RELEVANT_FEATURE (the coeff) p)\<rparr>, ())
                           else if i \<in> all_relevant_features relevant_feature_map then
                             Inr (node\<lparr>description := Some RELEVANT_INTERACTION_ONLY\<rparr>, ())
                           else Inr (node, ())))))
      else
        (case getattrs description cs of
           Inl e \<Rightarrow> Inl e
         | Inr ds \<Rightarrow>
             Inr (if list_ex (\<lambda>d. d \<noteq> IRRELEVANT) ds
                  then node\<lparr>description := Some RELEVANT\<rparr> else node, ())))"

text \<open>
  \<^verbatim>\<open>update_hierarchy_relevance(hierarchy_root, relevant_feature_map, probs)\<close>: the tree
  after the call.
\<close>

definition update_hierarchy_relevance ::
  "attrs tree \<Rightarrow> relevance_map \<Rightarrow> real list \<Rightarrow> error + attrs tree" where
  "update_hierarchy_relevance hierarchy_root relevant_feature_map probs =
     (case post_order_for (relevance_body relevant_feature_map probs) 0 () hierarchy_root of
        Inl e \<Rightarrow> Inl e
      | Inr (hierarchy_root', n, u) \<Rightarrow> Inr hierarchy_root')"

text \<open>
  A tree that the loop of \<^verbatim>\<open>update_hierarchy_relevance\<close> leaves as it is: the body, run on
  any node with the children the node has, gives the attributes the node has.
\<close>

fun annotated :: "relevance_map \<Rightarrow> real list \<Rightarrow> attrs tree \<Rightarrow> bool" where
  "annotated m probs (Node a cs) =
     (list_all (annotated m probs) cs \<and> relevance_body m probs 0 () a cs = Inr (a, ()))"

text \<open>A hierarchy for concrete runs: a root over the leaves of features 0 and 1.\<close>

definition demo_hierarchy :: "attrs tree" where
  "demo_hierarchy =
     Node (new_node ''2'' None)
       [Node (new_node ''0'' (Some ''0'')) [], Node (new_node ''1'' (Some ''1'')) []]"

definition demo_relevance_map :: relevance_map where
  "demo_relevance_map = [({0}, 1 / 2)]"

definition demo_probs :: "real list" where
  "demo_probs = [1 / 4, 3 / 4]"

text \<open>The demo hierarchy after \<^verbatim>\<open>update_hierarchy_relevance\<close>.\<close>

definition demo_annotated :: "attrs tree" where
  "demo_annotated =
     Node ((new_node ''2'' None)\<lparr>description := Some RELEVANT\<rparr>)
       [Node ((new_node ''0'' (Some ''0''))
                \<lparr>description := Some (RELEVANT_FEATURE (1 / 2) (1 / 4)),
                 poly_coeff := Some (1 / 2), bin_prob := Some (1 / 4)\<rparr>) [],
        Node ((new_node ''1'' (Some ''1''))
                \<lparr>description := Some IRRELEVANT, poly_coeff := Some 0, bin_prob := Some (3 / 4)\<rparr>) []]"

text \<open>
  A leaf the loop of \<^verbatim>\<open>update_hierarchy_relevance\<close> can handle: it has \<^verbatim>\<open>static_indices\<close>,
  \<^verbatim>\<open>int\<close> reads it, and the result is an index of \<^verbatim>\<open>probs\<close>.
\<close>

definition leaf_ok :: "real list \<Rightarrow> attrs \<Rightarrow> bool" where
  "leaf_ok probs a =
     (case static_indices a of
        None \<Rightarrow> False
      | Some s \<Rightarrow>
          (case py_int s of
             Inl e \<Rightarrow> False
           | Inr i \<Rightarrow> (case py_index probs i of Inl e \<Rightarrow> False | Inr p \<Rightarrow> True)))"


section \<open>Ground-truth p-values\<close>

text \<open>
  \<^verbatim>\<open>min(pvalue, 1e-10 / x)\<close> where \<open>x\<close> is a NumPy float: for \<open>x = 0\<close> the quotient is
  \<^verbatim>\<open>inf\<close> (NumPy warns and does not raise), so the minimum is \<open>pvalue\<close>. P-values,
  coefficients and probabilities are reals here, where \<^verbatim>\<open>float64\<close> rounds the product, the
  cube and the quotient: what is proved of the p-values below is their order, and nothing
  that depends on where exactly the quotient passes \<open>pvalue\<close>.
\<close>

definition min_with_quotient :: "real \<Rightarrow> real \<Rightarrow> real" where
  "min_with_quotient pv x = (if x = 0 then pv else min pv (1 / 10 ^ 10 / x))"

text \<open>
  The body of the loop of \<^verbatim>\<open>compare_with_ground_truth\<close> over the hierarchy, for one node:
  the p-value is 1.0 for an irrelevant node; 0.001 for a relevant leaf, lowered by the cube
  of coefficient times probability when the coefficient is not zero; and 0.999 times the
  least p-value of the children for a relevant internal node.
\<close>

definition pvalue_body ::
  "nat \<Rightarrow> unit \<Rightarrow> attrs \<Rightarrow> attrs tree list \<Rightarrow> error + (attrs \<times> unit)" where
  "pvalue_body k st node cs =
     (let node = node\<lparr>pvalue := Some 1\<rparr> in
      case description node of
        None \<Rightarrow> Inl AttributeError
      | Some d \<Rightarrow>
          if d \<noteq> IRRELEVANT then
            if cs = [] then
              (let node = node\<lparr>pvalue := Some (1 / 1000)\<rparr> in
               case poly_coeff node of
                 None \<Rightarrow> Inl AttributeError
               | Some c \<Rightarrow>
                   if c \<noteq> 0 then
                     (case bin_prob node of
                        None \<Rightarrow> Inl AttributeError
                      | Some p \<Rightarrow>
                          Inr (node\<lparr>pvalue := Some (min_with_quotient (1 / 1000) ((c * p) ^ 3))\<rparr>, ()))
                   else Inr (node, ()))
            else
              (case getattrs pvalue cs of
                 Inl e \<Rightarrow> Inl e
               | Inr ps \<Rightarrow> Inr (node\<lparr>pvalue := Some (999 / 1000 * Min (set ps))\<rparr>, ()))
          else Inr (node, ()))"

text \<open>
  \<^verbatim>\<open>compare_with_ground_truth(args, hierarchy_root)\<close>: the hierarchy with the p-values the
  loop assigns. (The rows it writes to \<^verbatim>\<open>ground_truth_pvalues.csv\<close> hold these p-values; the
  run of the correction procedure on that file is outside the function's own code.)
\<close>

definition compare_with_ground_truth :: "attrs tree \<Rightarrow> error + attrs tree" where
  "compare_with_ground_truth hierarchy_root =
     (case post_order_for pvalue_body 0 () hierarchy_root of
        Inl e \<Rightarrow> Inl e
      | Inr (hierarchy_root', n, u) \<Rightarrow> Inr hierarchy_root')"

text \<open>A tree that the loop of \<^verbatim>\<open>compare_with_ground_truth\<close> leaves as it is.\<close>

fun scored :: "attrs tree \<Rightarrow> bool" where
  "scored (Node a cs) = (list_all scored cs \<and> pvalue_body 0 () a cs = Inr (a, ()))"

text \<open>
  The coefficient and the probability of a node are not negative (both are drawn from
  \<open>[0, 1)\<close> by the simulation).
\<close>

definition nonneg_attrs :: "attrs \<Rightarrow> bool" where
  "nonneg_attrs a =
     ((case poly_coeff a of None \<Rightarrow> True | Some c \<Rightarrow> 0 \<le> c) \<and>
      (case bin_prob a of None \<Rightarrow> True | Some p \<Rightarrow> 0 \<le> p))"

text \<open>The least p-value among the children of a node.\<close>

definition min_child_pvalue :: "attrs tree \<Rightarrow> real" where
  "min_child_pvalue n = Min (set (map (\<lambda>c. the (pvalue (attrs c))) (children n)))"

text \<open>
  A second hierarchy for concrete runs: the root has an internal child over the leaf of
  feature 0, and the leaves of features 1 and 2. Features 1 and 2 are relevant, with
  coefficients 1/10 and 1/2; the probabilities are 1/2, 1/100 and 1/2.
\<close>

definition pv_hierarchy :: "attrs tree" where
  "pv_hierarchy =
     Node (new_node ''4'' None)
       [Node (new_node ''3'' None) [Node (new_node ''0'' (Some ''0'')) []],
        Node (new_node ''1'' (Some ''1'')) [],
        Node (new_node ''2'' (Some ''2'')) []]"

definition pv_relevance_map :: relevance_map where
  "pv_relevance_map = [({1}, 1 / 10), ({2}, 1 / 2)]"

definition pv_probs :: "real list" where
  "pv_probs = [1 / 2, 1 / 100, 1 / 2]"

text \<open>Its nodes after \<^verbatim>\<open>update_hierarchy_relevance\<close>.\<close>

definition pv_leaf0 :: "attrs tree" where
  "pv_leaf0 =
     Node ((new_node ''0'' (Some ''0''))
             \<lparr>description := Some IRRELEVANT, poly_coeff := Some 0, bin_prob := Some (1 / 2)\<rparr>) []"

definition pv_leaf1 :: "attrs tree" where
  "pv_leaf1 =
     Node ((new_node ''1'' (Some ''1''))
             \<lparr>description := Some (RELEVANT_FEATURE (1 / 10) (1 / 100)),
              poly_coeff := Some (1 / 10), bin_prob := Some (1 / 100)\<rparr>) []"

definition pv_leaf2 :: "attrs tree" where
  "pv_leaf2 =
     Node ((new_node ''2'' (Some ''2''))
             \<lparr>description := Some (RELEVANT_FEATURE (1 / 2) (1 / 2)),
              poly_coeff := Some (1 / 2), bin_prob := Some (1 / 2)\<rparr>) []"

definition pv_inner :: "attrs tree" where
  "pv_inner = Node ((new_node ''3'' None)\<lparr>description := Some IRRELEVANT\<rparr>) [pv_leaf0]"

definition pv_annotated :: "attrs tree" where
  "pv_annotated =
     Node ((new_node ''4'' None)\<lparr>description := Some RELEVANT\<rparr>) [pv_inner, pv_leaf1, pv_leaf2]"

text \<open>\<^verbatim>\<open>node.pvalue = v\<close> on the root of a tree, and on a tree with new children.\<close>

definition with_pvalue :: "real \<Rightarrow> attrs tree \<Rightarrow> attrs tree list \<Rightarrow> attrs tree" where
  "with_pvalue v t cs = Node ((attrs t)\<lparr>pvalue := Some v\<rparr>) cs"

text \<open>The same nodes after \<^verbatim>\<open>compare_with_ground_truth\<close>.\<close>

definition pv_scored_inner :: "attrs tree" where
  "pv_scored_inner = with_pvalue 1 pv_inner [with_pvalue 1 pv_leaf0 []]"

definition pv_scored_leaf1 :: "attrs tree" where
  "pv_scored_leaf1 = with_pvalue (1 / 1000) pv_leaf1 []"

definition pv_scored_leaf2 :: "attrs tree" where
  "pv_scored_leaf2 = with_pvalue (64 / 10 ^ 10) pv_leaf2 []"

definition pv_scored :: "attrs tree" where
  "pv_scored =
     with_pvalue (999 / 1000 * (64 / 10 ^ 10)) pv_annotated
       [pv_scored_inner, pv_scored_leaf1, pv_scored_leaf2]"

section \<open>Evaluation\<close>

text \<open>
  A node of a tree read from the JSON output of the hierarchical FDR procedure: its name,
  its description and its \<^verbatim>\<open>rejected\<close> flag.
\<close>

record fdr_node =
  node_name :: string
  node_description :: description
  rejected :: bool

text \<open>The nodes below a node: \<^verbatim>\<open>node.descendants\<close>.\<close>

definition descendants :: "'a tree \<Rightarrow> 'a tree list" where
  "descendants n = concat (map PreOrderIter (children n))"

text \<open>
  The local \<^verbatim>\<open>nodes\<close> of \<^verbatim>\<open>get_relevant_rejected\<close> after its \<^verbatim>\<open>if outer: ... elif leaves: ...\<close>:
  the nodes the two label vectors are built over.
\<close>

definition selected_nodes :: "fdr_node tree list \<Rightarrow> bool \<Rightarrow> bool \<Rightarrow> fdr_node tree list" where
  "selected_nodes nodes outer leaves_only =
     (if outer then
        filter (\<lambda>node. rejected (attrs node) \<and>
                  list_all (\<lambda>child. \<not> rejected (attrs child)) (children node)) nodes
      else if leaves_only then filter is_leaf nodes
      else nodes)"

text \<open>
  \<^verbatim>\<open>get_relevant_rejected(nodes, outer, leaves)\<close>, the local function of \<^verbatim>\<open>evaluate\<close>: the
  labels \<^verbatim>\<open>relevant\<close> and \<^verbatim>\<open>rejected\<close> of the selected nodes. Its \<^verbatim>\<open>assert\<close> fails when both
  flags are set.
\<close>

definition get_relevant_rejected ::
  "fdr_node tree list \<Rightarrow> bool \<Rightarrow> bool \<Rightarrow> error + (nat list \<times> nat list)" where
  "get_relevant_rejected nodes outer leaves_only =
     (if outer \<and> leaves_only then Inl AssertionError
      else
        (let nodes = selected_nodes nodes outer leaves_only
         in Inr (map (\<lambda>node. if node_description (attrs node) = IRRELEVANT then 0 else 1) nodes,
                 map (\<lambda>node. if rejected (attrs node) then 1 else 0) nodes)))"

text \<open>
  \<^verbatim>\<open>name.split(" + ")\<close>: the pieces of a string between the occurrences of the separator,
  found from the left; \<open>cur\<close> is the piece being read.
\<close>

fun split_plus :: "string \<Rightarrow> string \<Rightarrow> string list" where
  "split_plus cur [] = [cur]"
| "split_plus cur (c # cs) =
     (case cs of
        d # e # rest \<Rightarrow>
          if c = CHR '' '' \<and> d = CHR ''+'' \<and> e = CHR '' '' then cur # split_plus [] rest
          else split_plus (cur @ [c]) cs
      | _ \<Rightarrow> split_plus (cur @ [c]) cs)"

text \<open>\<^verbatim>\<open>int(idx)\<close> for every piece, in order; the first failure is raised.\<close>

fun ints_of :: "string list \<Rightarrow> error + int list" where
  "ints_of [] = Inr []"
| "ints_of (s # ss) =
     (case py_int s of
        Inl e \<Rightarrow> Inl e
      | Inr i \<Rightarrow> (case ints_of ss of Inl e \<Rightarrow> Inl e | Inr is \<Rightarrow> Inr (i # is)))"

text \<open>
  The feature-id map: a dictionary from the contiguous ids to the feature indices, as the
  list of its items. \<open>tested_pair\<close> is the local \<^verbatim>\<open>pair\<close> of the loop of
  \<^verbatim>\<open>get_precision_recall_interactions\<close> for the node of that name: the set of the integers
  in the name, taken through the feature-id map when that is not empty (\<^verbatim>\<open>KeyError\<close> for
  an id that is not a key).
\<close>

type_synonym feature_id_map = "(int \<times> int) list"

definition tested_pair :: "feature_id_map \<Rightarrow> string \<Rightarrow> error + int set" where
  "tested_pair feature_id_map nm =
     (case ints_of (split_plus [] nm) of
        Inl e \<Rightarrow> Inl e
      | Inr ids \<Rightarrow>
          if feature_id_map \<noteq> [] then
            (if list_all (\<lambda>visual_id. map_of feature_id_map visual_id \<noteq> None) ids
             then Inr (set (map (\<lambda>visual_id. the (map_of feature_id_map visual_id)) ids))
             else Inl KeyError)
          else Inr (set ids))"

text \<open>The counters of \<^verbatim>\<open>get_precision_recall_interactions\<close> and its set \<^verbatim>\<open>tested\<close>.\<close>

record counts =
  tp :: nat
  fp :: nat
  tn :: nat
  fn :: nat
  tested :: "int set set"

text \<open>The loop over \<^verbatim>\<open>tree.children\<close>, from the counters \<open>st\<close>.\<close>

fun count_tested ::
  "relevance_map \<Rightarrow> feature_id_map \<Rightarrow> fdr_node tree list \<Rightarrow> counts \<Rightarrow> error + counts" where
  "count_tested relevant_feature_map feature_id_map [] st = Inr st"
| "count_tested relevant_feature_map feature_id_map (node # nodes) st =
     (case tested_pair feature_id_map (node_name (attrs node)) of
        Inl e \<Rightarrow> Inl e
      | Inr pair \<Rightarrow>
          (let st = st\<lparr>tested := insert pair (tested st)\<rparr>;
               st = (if rejected (attrs node) then
                       (if truthy (map_of relevant_feature_map pair)
                        then st\<lparr>tp := tp st + 1\<rparr> else st\<lparr>fp := fp st + 1\<rparr>)
                     else
                       (if truthy (map_of relevant_feature_map pair)
                        then st\<lparr>fn := fn st + 1\<rparr> else st\<lparr>tn := tn st + 1\<rparr>))
           in count_tested relevant_feature_map feature_id_map nodes st))"

text \<open>
  \<^verbatim>\<open>get_precision_recall_interactions(args, relevant_feature_map, feature_id_map)\<close>; the
  first argument is \<^verbatim>\<open>args.analyze_interactions\<close>, the last the tree read from the JSON
  file of the interaction analysis. The result is the pair (precision, recall).
\<close>

definition get_precision_recall_interactions ::
  "bool \<Rightarrow> relevance_map \<Rightarrow> feature_id_map \<Rightarrow> fdr_node tree \<Rightarrow> error + (real \<times> real)" where
  "get_precision_recall_interactions analyze_interactions relevant_feature_map feature_id_map tree =
     (if \<not> analyze_interactions then Inr (0, 0)
      else
        (let true_interactions = set (filter (\<lambda>key. card key > 1) (map fst relevant_feature_map))
         in case count_tested relevant_feature_map feature_id_map (children tree)
                  \<lparr>tp = 0, fp = 0, tn = 0, fn = 0, tested = {}\<rparr> of
              Inl e \<Rightarrow> Inl e
            | Inr st \<Rightarrow>
                if \<not> tp st > 0 then Inr (0, 0)
                else
                  (let missed = true_interactions - tested st;
                       fn' = fn st + card missed
                   in Inr (real (tp st) / real (tp st + fp st),
                           real (tp st) / real (tp st + fn')))))"

text \<open>The simulation results: the named tuple \<^verbatim>\<open>Results\<close>.\<close>

record results =
  FDR :: real
  POWER :: real
  OUTER_NODES_FDR :: real
  OUTER_NODES_POWER :: real
  BASE_FEATURES_FDR :: real
  BASE_FEATURES_POWER :: real
  INTERACTIONS_FDR :: real
  INTERACTIONS_POWER :: real

text \<open>
  \<^verbatim>\<open>evaluate(args, relevant_feature_map, feature_id_map)\<close>. \<open>prfs\<close> is
  \<^verbatim>\<open>sklearn.metrics.precision_recall_fscore_support(y_true, y_pred, average="binary")\<close>,
  cut to its first two results, precision and recall; \<open>tree\<close> and \<open>interactions_tree\<close>
  are the trees read from the two JSON files.
\<close>

definition evaluate ::
  "(nat list \<Rightarrow> nat list \<Rightarrow> error + (real \<times> real)) \<Rightarrow> bool \<Rightarrow> relevance_map \<Rightarrow> feature_id_map
     \<Rightarrow> fdr_node tree \<Rightarrow> fdr_node tree \<Rightarrow> error + results" where
  "evaluate prfs analyze_interactions relevant_feature_map feature_id_map tree interactions_tree =
     (let nodes = PreOrderIter tree in
      case get_relevant_rejected nodes False False of
        Inl e \<Rightarrow> Inl e
      | Inr (relevant, rej) \<Rightarrow>
     (case prfs relevant rej of
        Inl e \<Rightarrow> Inl e
      | Inr (precision, recall) \<Rightarrow>
     (case get_relevant_rejected nodes True False of
        Inl e \<Rightarrow> Inl e
      | Inr (outer_relevant, outer_rejected) \<Rightarrow>
     (case prfs outer_relevant outer_rejected of
        Inl e \<Rightarrow> Inl e
      | Inr (outer_precision, outer_recall) \<Rightarrow>
     (case get_relevant_rejected nodes False True of
        Inl e \<Rightarrow> Inl e
      | Inr (bf_relevant, bf_rejected) \<Rightarrow>
     (case prfs bf_relevant bf_rejected of
        Inl e \<Rightarrow> Inl e
      | Inr (bf_precision, bf_recall) \<Rightarrow>
     (case get_precision_recall_interactions analyze_interactions relevant_feature_map
             feature_id_map interactions_tree of
        Inl e \<Rightarrow> Inl e
      | Inr (interaction_precision, interaction_recall) \<Rightarrow>
          Inr \<lparr>FDR = 1 - precision, POWER = recall,
               OUTER_NODES_FDR = 1 - outer_precision, OUTER_NODES_POWER = outer_recall,
               BASE_FEATURES_FDR = 1 - bf_precision, BASE_FEATURES_POWER = bf_recall,
               INTERACTIONS_FDR = 1 - interaction_precision,
               INTERACTIONS_POWER = interaction_recall\<rparr>)))))))"

text \<open>
  The rejections of a tree are closed upwards: a rejected child has a rejected parent, at
  every node. (A hierarchical testing procedure tests a node only below a rejected parent.)
\<close>

definition upward_closed :: "fdr_node tree \<Rightarrow> bool" where
  "upward_closed t =
     list_all (\<lambda>n. list_all (\<lambda>c. rejected (attrs c) \<longrightarrow> rejected (attrs n)) (children n))
       (PreOrderIter t)"

text \<open>
  Two discovery trees for concrete runs. In the first the root and its first child are
  rejected. In the second the root and its grandchild are rejected and the node between
  them is not.
\<close>

definition fdr_leaf :: "string \<Rightarrow> description \<Rightarrow> bool \<Rightarrow> fdr_node tree" where
  "fdr_leaf nm d r = Node \<lparr>node_name = nm, node_description = d, rejected = r\<rparr> []"

definition closed_tree :: "fdr_node tree" where
  "closed_tree =
     Node \<lparr>node_name = ''4'', node_description = RELEVANT, rejected = True\<rparr>
       [fdr_leaf ''0'' RELEVANT_INTERACTION_ONLY True,
        Node \<lparr>node_name = ''3'', node_description = IRRELEVANT, rejected = False\<rparr>
          [fdr_leaf ''1'' IRRELEVANT False, fdr_leaf ''2'' IRRELEVANT False]]"

definition gap_inner :: "fdr_node tree" where
  "gap_inner =
     Node \<lparr>node_name = ''1'', node_description = RELEVANT, rejected = False\<rparr>
       [fdr_leaf ''0'' RELEVANT_INTERACTION_ONLY True]"

definition gap_tree :: "fdr_node tree" where
  "gap_tree = Node \<lparr>node_name = ''2'', node_description = RELEVANT, rejected = True\<rparr> [gap_inner]"

text \<open>
  Binary precision and recall of a prediction against the truth, with 0 where nothing is
  predicted (or nothing is true): what \<^verbatim>\<open>precision_recall_fscore_support\<close> gives with
  \<^verbatim>\<open>average="binary"\<close>. It stands for the library function in concrete runs.
\<close>

definition binary_precision_recall :: "nat list \<Rightarrow> nat list \<Rightarrow> error + (real \<times> real)" where
  "binary_precision_recall y_true y_pred =
     (let hits = length (filter (\<lambda>(t, p). t = 1 \<and> p = 1) (zip y_true y_pred));
          predicted = length (filter (\<lambda>p. p = 1) y_pred);
          true = length (filter (\<lambda>t. t = 1) y_true)
      in Inr (if predicted = 0 then 0 else real hits / real predicted,
              if true = 0 then 0 else real hits / real true))"

text \<open>
  An interactions tree for concrete runs: the pair of features 0 and 1 was tested and not
  rejected, the pair of features 1 and 2 was tested and rejected. Only the first pair is a
  true interaction of the relevance map.
\<close>

definition interactions_tree :: "fdr_node tree" where
  "interactions_tree =
     Node \<lparr>node_name = ''root'', node_description = IRRELEVANT, rejected = True\<rparr>
       [fdr_leaf ''0 + 1'' IRRELEVANT False, fdr_leaf ''1 + 2'' IRRELEVANT True]"

definition interactions_map :: relevance_map where
  "interactions_map = [({0, 1}, 1 / 2), ({0}, 1 / 4)]"

section \<open>Building the hierarchy\<close>

text \<open>
  The random source \<^verbatim>\<open>args.rng\<close> (a NumPy \<^verbatim>\<open>RandomState\<close>), with its state \<open>'g\<close> passed
  along. Each method is a function of the state and gives the next state:
  \<^item> \<open>rng_shuffle g n\<close>: \<^verbatim>\<open>rng.shuffle(xs)\<close> on a sequence of length \<open>n\<close>, as the list of the
    old positions in their new order (the sequence becomes \<open>map (nth xs) perm\<close>);
  \<^item> \<open>rng_choice g n size\<close>: \<^verbatim>\<open>rng.choice(xs, size, replace=False)\<close> on a sequence of length
    \<open>n\<close>, as the list of the positions chosen; it can raise;
  \<^item> \<open>rng_uniform g\<close>: \<^verbatim>\<open>rng.uniform()\<close>, and \<open>rng_uniforms g n\<close>: \<^verbatim>\<open>rng.uniform(size=n)\<close>.
\<close>

datatype py_number = PyInt int | PyFloat real

record 'g random_state =
  rng_shuffle :: "'g \<Rightarrow> nat \<Rightarrow> nat list \<times> 'g"
  rng_choice :: "'g \<Rightarrow> nat \<Rightarrow> py_number \<Rightarrow> error + (nat list \<times> 'g)"
  rng_uniform :: "'g \<Rightarrow> real \<times> 'g"
  rng_uniforms :: "'g \<Rightarrow> nat \<Rightarrow> real list \<times> 'g"

text \<open>
  \<^verbatim>\<open>constants.CLUSTER_FROM_DATA\<close> and \<^verbatim>\<open>constants.RANDOM\<close> are two different strings;
  \<open>OTHER_HIERARCHY s\<close> is any other value of \<^verbatim>\<open>args.hierarchy_type\<close>.
\<close>

datatype hierarchy_type = CLUSTER_FROM_DATA | RANDOM | OTHER_HIERARCHY string

text \<open>
  The \<^verbatim>\<open>for\<close> loop inside the \<^verbatim>\<open>while\<close> loop of \<^verbatim>\<open>gen_random_hierarchy\<close>: consecutive
  nodes get a new parent, named by the running \<^verbatim>\<open>node_count\<close>; a last node without a
  right neighbour gets a parent of its own. The result is \<^verbatim>\<open>parents\<close> and the count.
\<close>

fun pair_up :: "nat \<Rightarrow> attrs tree list \<Rightarrow> attrs tree list \<times> nat" where
  "pair_up node_count [] = ([], node_count)"
| "pair_up node_count [l] =
     ([Node (new_node (str (int node_count)) None) [l]], node_count + 1)"
| "pair_up node_count (l # r # rest) =
     (case pair_up (node_count + 1) rest of
        (parents, node_count') \<Rightarrow>
          (Node (new_node (str (int node_count)) None) [l, r] # parents, node_count'))"

lemma length_pair_up: "length (fst (pair_up node_count nodes)) = (length nodes + 1) div 2"
  by (induction node_count nodes rule: pair_up.induct) (auto split: prod.splits)

lemma length_pair_up_less:
  "(parents, node_count') = pair_up node_count nodes \<Longrightarrow> 1 < length nodes \<Longrightarrow>
     length parents < length nodes"
  using length_pair_up [of node_count nodes] by (cases "pair_up node_count nodes") auto

text \<open>The \<^verbatim>\<open>while len(nodes) > 1\<close> loop: the list \<^verbatim>\<open>nodes\<close> when it ends.\<close>

function pair_rounds :: "nat \<Rightarrow> attrs tree list \<Rightarrow> attrs tree list" where
  "pair_rounds node_count nodes =
     (if length nodes > 1 then
        (case pair_up node_count nodes of
           (parents, node_count') \<Rightarrow> pair_rounds node_count' parents)
      else nodes)"
  by pat_completeness auto

termination
  by (relation "measure (\<lambda>(node_count, nodes). length nodes)")
     (auto dest: length_pair_up_less)

declare pair_rounds.simps [simp del]

text \<open>
  The leaf that \<^verbatim>\<open>gen_random_hierarchy\<close> makes for feature \<open>i\<close>:
  \<^verbatim>\<open>anytree.Node(str(idx), static_indices=str(idx))\<close>.
\<close>

definition feature_leaf :: "nat \<Rightarrow> attrs tree" where
  "feature_leaf i = Node (new_node (str (int i)) (Some (str (int i)))) []"

text \<open>
  \<^verbatim>\<open>gen_random_hierarchy(args)\<close>, from \<^verbatim>\<open>args.rng\<close> in state \<open>g\<close> and \<^verbatim>\<open>args.num_features\<close>:
  one leaf for every feature, shuffled, then paired up round by round. \<^verbatim>\<open>nodes[0]\<close>
  raises \<^verbatim>\<open>IndexError\<close> when there is no feature.
\<close>

definition gen_random_hierarchy ::
  "'g random_state \<Rightarrow> 'g \<Rightarrow> int \<Rightarrow> error + (attrs tree \<times> 'g)" where
  "gen_random_hierarchy rng g num_features =
     (let nodes = map feature_leaf [0..<nat num_features];
          (perm, g') = rng_shuffle rng g (length nodes);
          nodes = map (\<lambda>i. nodes ! i) perm;
          node_count = length nodes
      in case pair_rounds node_count nodes of
           [] \<Rightarrow> Inl IndexError
         | hierarchy_root # _ \<Rightarrow> Inr (hierarchy_root, g'))"

text \<open>
  \<^verbatim>\<open>"[%d-%d] (size: %d)" % (min_child_idx, max_child_idx, num_base_features)\<close>.
\<close>

definition range_name :: "int \<Rightarrow> int \<Rightarrow> int \<Rightarrow> string" where
  "range_name lo hi n = ''['' @ str lo @ ''-'' @ str hi @ ''] (size: '' @ str n @ '')''"

text \<open>
  The body of the loop of \<^verbatim>\<open>gen_hierarchy\<close> over
  \<^verbatim>\<open>enumerate(anytree.PostOrderIter(hierarchy_root))\<close>, for the node visited at index \<open>k\<close>;
  the outer variable is \<^verbatim>\<open>feature_id_map\<close>.
\<close>

definition rename_body ::
  "nat \<Rightarrow> feature_id_map \<Rightarrow> attrs \<Rightarrow> attrs tree list \<Rightarrow> error + (attrs \<times> feature_id_map)" where
  "rename_body k feature_id_map node cs =
     (let node = node\<lparr>idx := Some (int k)\<rparr> in
      if cs = [] then
        (let node = node\<lparr>min_child_idx := Some (int k), max_child_idx := Some (int k),
                         num_base_features := Some 1, name := str (int k)\<rparr>
         in case static_indices node of
              None \<Rightarrow> Inl AttributeError
            | Some s \<Rightarrow>
                (case py_int s of
                   Inl e \<Rightarrow> Inl e
                 | Inr i \<Rightarrow> Inr (node, AList.update (int k) i feature_id_map)))
      else
        (case getattrs min_child_idx cs of
           Inl e \<Rightarrow> Inl e
         | Inr los \<Rightarrow>
             (case getattrs idx cs of
                Inl e \<Rightarrow> Inl e
              | Inr his \<Rightarrow>
                  (case getattrs num_base_features cs of
                     Inl e \<Rightarrow> Inl e
                   | Inr ns \<Rightarrow>
                       Inr (node\<lparr>min_child_idx := Some (Min (set los)),
                                  max_child_idx := Some (Max (set his)),
                                  num_base_features := Some (sum_list ns),
                                  name := range_name (Min (set los)) (Max (set his)) (sum_list ns)\<rparr>,
                            feature_id_map)))))"

text \<open>
  \<^verbatim>\<open>gen_hierarchy(args, clustering_data)\<close>, from \<^verbatim>\<open>args.rng\<close> in state \<open>g\<close>,
  \<^verbatim>\<open>args.hierarchy_type\<close>, \<^verbatim>\<open>args.contiguous_node_names\<close> and \<^verbatim>\<open>args.num_features\<close>.
  \<open>clustered\<close> is the value of the branch for \<^verbatim>\<open>CLUSTER_FROM_DATA\<close>, the tree that
  \<^verbatim>\<open>gen_hierarchy_from_clusters\<close> makes of SciPy's linkage of the clustering data (or the
  exception raised on the way). The result is the root, the feature-id map and the state
  of the random source.
\<close>

definition gen_hierarchy ::
  "'g random_state \<Rightarrow> 'g \<Rightarrow> hierarchy_type \<Rightarrow> bool \<Rightarrow> int \<Rightarrow> error + attrs tree
     \<Rightarrow> error + (attrs tree \<times> feature_id_map \<times> 'g)" where
  "gen_hierarchy rng g hierarchy_type contiguous_node_names num_features clustered =
     (case (if hierarchy_type = CLUSTER_FROM_DATA then
              (case clustered of Inl e \<Rightarrow> Inl e | Inr t \<Rightarrow> Inr (t, g))
            else if hierarchy_type = RANDOM then gen_random_hierarchy rng g num_features
            else Inl NotImplementedError) of
        Inl e \<Rightarrow> Inl e
      | Inr (hierarchy_root, g') \<Rightarrow>
          if contiguous_node_names then
            (case post_order_for rename_body 0 [] hierarchy_root of
               Inl e \<Rightarrow> Inl e
             | Inr (hierarchy_root', n, feature_id_map) \<Rightarrow>
                 Inr (hierarchy_root', feature_id_map, g'))
          else Inr (hierarchy_root, [], g'))"

text \<open>
  A leaf as the loop of \<^verbatim>\<open>gen_hierarchy\<close> leaves it, visited at an index \<open>j\<close> from \<open>k\<close> up to
  \<open>k'\<close>: its name is \<^verbatim>\<open>str(j)\<close>, and the feature-id map sends \<open>j\<close> to the integer that its
  \<^verbatim>\<open>static_indices\<close> reads as.
\<close>

definition leaf_mapped :: "feature_id_map \<Rightarrow> nat \<Rightarrow> nat \<Rightarrow> attrs tree \<Rightarrow> bool" where
  "leaf_mapped fm k k' l =
     (\<exists>j s i. idx (attrs l) = Some (int j) \<and> k \<le> j \<and> j < k' \<and> name (attrs l) = str (int j) \<and>
        static_indices (attrs l) = Some s \<and> py_int s = Inr i \<and> map_of fm (int j) = Some i)"


text \<open>
  The contract of \<^verbatim>\<open>rng.shuffle\<close> for the call on \<open>n\<close> items from state \<open>g\<close>: the new order
  is a permutation of the positions.
\<close>

definition shuffle_ok :: "'g random_state \<Rightarrow> 'g \<Rightarrow> nat \<Rightarrow> bool" where
  "shuffle_ok rng g n = (sort (fst (rng_shuffle rng g n)) = [0..<n])"

text \<open>
  A random source for concrete runs: it shuffles by a rotation, chooses the first
  positions, and draws one half every time.
\<close>

definition demo_rng :: "unit random_state" where
  "demo_rng =
     \<lparr>rng_shuffle = (\<lambda>g n. (rotate1 [0..<n], g)),
      rng_choice = (\<lambda>g n size.
         case size of
           PyInt k \<Rightarrow> if 0 \<le> k \<and> nat k \<le> n then Inr ([0..<nat k], g) else Inl ValueError
         | PyFloat x \<Rightarrow> Inl TypeError),
      rng_uniform = (\<lambda>g. (1 / 2, g)),
      rng_uniforms = (\<lambda>g n. (replicate n (1 / 2), g))\<rparr>"

text \<open>
  Nodes as the loop of \<^verbatim>\<open>gen_hierarchy\<close> leaves them: a leaf visited at index \<open>j\<close>, and an
  internal node visited at index \<open>j\<close> over the ids \<open>lo\<close> to \<open>hi\<close> with \<open>n\<close> leaves.
\<close>

definition renamed_leaf :: "int \<Rightarrow> string \<Rightarrow> attrs tree" where
  "renamed_leaf j s =
     Node ((new_node (str j) (Some s))
             \<lparr>idx := Some j, min_child_idx := Some j, max_child_idx := Some j,
              num_base_features := Some 1\<rparr>) []"

definition renamed_inner :: "int \<Rightarrow> int \<Rightarrow> int \<Rightarrow> int \<Rightarrow> attrs tree list \<Rightarrow> attrs tree" where
  "renamed_inner j lo hi n cs =
     Node ((new_node (range_name lo hi n) None)
             \<lparr>idx := Some j, min_child_idx := Some lo, max_child_idx := Some hi,
              num_base_features := Some n\<rparr>) cs"

text \<open>
  The random hierarchy over three features that the demo random source gives, with
  contiguous names, and without.
\<close>

definition demo_renamed :: "attrs tree" where
  "demo_renamed =
     renamed_inner 5 0 4 3
       [renamed_inner 2 0 1 2 [renamed_leaf 0 ''1'', renamed_leaf 1 ''2''],
        renamed_inner 4 3 3 1 [renamed_leaf 3 ''0'']]"

definition demo_random :: "attrs tree" where
  "demo_random =
     Node (new_node ''5'' None)
       [Node (new_node ''3'' None) [feature_leaf 1, feature_leaf 2],
        Node (new_node ''4'' None) [feature_leaf 0]]"

section \<open>The ground-truth polynomial\<close>

text \<open>
  The symbols of the SymPy expressions: the feature \<^verbatim>\<open>x\<close>\<open>i\<close>, the noise coefficient
  \<^verbatim>\<open>noise\<close>\<open>i\<close> and the single \<^verbatim>\<open>noise\<close>. An expression is a sum of terms, each a coefficient
  times a product of symbols; \<open>eval_expr\<close> is its value under an assignment.
\<close>

datatype sym = Feature nat | NoiseAt nat | NoiseSym

type_synonym expr = "(real \<times> sym list) list"

definition eval_expr :: "(sym \<Rightarrow> real) \<Rightarrow> expr \<Rightarrow> real" where
  "eval_expr env e = sum_list (map (\<lambda>(c, vs). c * prod_list (map env vs)) e)"

text \<open>\<^verbatim>\<open>itertools.combinations(xs, 2)\<close>: the pairs of positions \<open>i < j\<close>, in order.\<close>

fun combinations2 :: "'a list \<Rightarrow> ('a \<times> 'a) list" where
  "combinations2 [] = []"
| "combinations2 (x # xs) = map (Pair x) xs @ combinations2 xs"

text \<open>
  The loop of \<^verbatim>\<open>update_interaction_terms\<close> over the chosen pairs: a coefficient is drawn,
  stored in the relevance map under the pair as a frozen set, and the product term is
  added. \<^verbatim>\<open>sym_features[y]\<close> raises for a feature that is no index of the symbols.
\<close>

fun add_interactions ::
  "'g random_state \<Rightarrow> sym list \<Rightarrow> (int \<times> int) list \<Rightarrow> relevance_map \<Rightarrow> expr \<Rightarrow> 'g
     \<Rightarrow> error + (relevance_map \<times> expr \<times> 'g)" where
  "add_interactions rng sym_features [] m poly g = Inr (m, poly, g)"
| "add_interactions rng sym_features (interaction_pair # pairs) m poly g =
     (case rng_uniform rng g of
        (coefficient, g1) \<Rightarrow>
          (let m = AList.update {fst interaction_pair, snd interaction_pair} coefficient m
           in case py_index sym_features (fst interaction_pair) of
                Inl e \<Rightarrow> Inl e
              | Inr xa \<Rightarrow>
                  (case py_index sym_features (snd interaction_pair) of
                     Inl e \<Rightarrow> Inl e
                   | Inr xb \<Rightarrow>
                       add_interactions rng sym_features pairs m
                         (poly @ [(coefficient, [xa, xb])]) g1)))"

text \<open>
  \<^verbatim>\<open>min(args.num_interactions, n * (n - 1) / 2)\<close>: the second argument is a float, and
  \<^verbatim>\<open>min\<close> returns it only when it is strictly less than the first.
\<close>

definition interactions_size :: "int \<Rightarrow> nat \<Rightarrow> py_number" where
  "interactions_size num_interactions n =
     (let cap = real (n * (n - 1)) / 2
      in if cap < real_of_int num_interactions then PyFloat cap else PyInt num_interactions)"

definition is_zero :: "py_number \<Rightarrow> bool" where
  "is_zero v = (case v of PyInt k \<Rightarrow> k = 0 | PyFloat x \<Rightarrow> x = 0)"

text \<open>
  \<^verbatim>\<open>update_interaction_terms(args, relevant_features, relevant_feature_map, sym_features,
  sym_polynomial_fn)\<close>, from \<^verbatim>\<open>args.rng\<close> in state \<open>g\<close> and \<^verbatim>\<open>args.num_interactions\<close>. The
  result is the relevance map, the polynomial and the state of the random source.
\<close>

definition update_interaction_terms ::
  "'g random_state \<Rightarrow> 'g \<Rightarrow> int \<Rightarrow> int set \<Rightarrow> relevance_map \<Rightarrow> sym list \<Rightarrow> expr
     \<Rightarrow> error + (relevance_map \<times> expr \<times> 'g)" where
  "update_interaction_terms rng g num_interactions relevant_features relevant_feature_map
     sym_features sym_polynomial_fn =
     (let num_relevant_features = card relevant_features;
          num_interactions = interactions_size num_interactions num_relevant_features
      in if is_zero num_interactions then Inr (relevant_feature_map, sym_polynomial_fn, g)
         else
           (let potential_pairs = combinations2 (sorted_list_of_set relevant_features)
            in case rng_choice rng g (length potential_pairs) num_interactions of
                 Inl e \<Rightarrow> Inl e
               | Inr (positions, g1) \<Rightarrow>
                   add_interactions rng sym_features (map (\<lambda>p. potential_pairs ! p) positions)
                     relevant_feature_map sym_polynomial_fn g1))"

text \<open>
  The local \<^verbatim>\<open>interaction_only_features\<close> of \<^verbatim>\<open>update_linear_terms\<close>: half of the features
  of the keys of the map, chosen without replacement, when there are such features and
  \<^verbatim>\<open>args.include_interaction_only_features\<close> is set; none otherwise.
\<close>

definition interaction_only_features ::
  "'g random_state \<Rightarrow> 'g \<Rightarrow> bool \<Rightarrow> relevance_map \<Rightarrow> error + (int list \<times> 'g)" where
  "interaction_only_features rng g include_interaction_only_features relevant_feature_map =
     (let interaction_features = \<Union> (set (map fst relevant_feature_map))
      in if interaction_features \<noteq> {} \<and> include_interaction_only_features then
           (let population = sorted_list_of_set interaction_features
            in case rng_choice rng g (length population)
                      (PyInt (int (card interaction_features) div 2)) of
                 Inl e \<Rightarrow> Inl e
               | Inr (positions, g1) \<Rightarrow> Inr (map (\<lambda>p. population ! p) positions, g1))
         else Inr ([], g))"

text \<open>
  \<^verbatim>\<open>coefficients[indices] = values\<close> on a NumPy array: the values go to the positions in
  turn; a position out of range raises \<^verbatim>\<open>IndexError\<close>.
\<close>

fun np_assign :: "real list \<Rightarrow> int list \<Rightarrow> real list \<Rightarrow> error + real list" where
  "np_assign xs (i # indices) (v # vs) =
     (if 0 \<le> i \<and> i < int (length xs) then np_assign (xs[nat i := v]) indices vs
      else if - int (length xs) \<le> i \<and> i < 0 then
        np_assign (xs[nat (int (length xs) + i) := v]) indices vs
      else Inl IndexError)"
| "np_assign xs indices vs = Inr xs"

text \<open>The loop of \<^verbatim>\<open>update_linear_terms\<close> over \<^verbatim>\<open>linear_features\<close>.\<close>

fun add_linear :: "real list \<Rightarrow> int list \<Rightarrow> relevance_map \<Rightarrow> error + relevance_map" where
  "add_linear coefficients [] m = Inr m"
| "add_linear coefficients (linear_feature # fs) m =
     (case py_index coefficients linear_feature of
        Inl e \<Rightarrow> Inl e
      | Inr c \<Rightarrow> add_linear coefficients fs (AList.update {linear_feature} c m))"

text \<open>
  \<^verbatim>\<open>update_linear_terms(args, relevant_features, relevant_feature_map, sym_features,
  sym_polynomial_fn)\<close>, from \<^verbatim>\<open>args.rng\<close> in state \<open>g\<close>, \<^verbatim>\<open>args.num_features\<close> and
  \<^verbatim>\<open>args.include_interaction_only_features\<close>. \<^verbatim>\<open>np.zeros\<close> raises for a negative size.
\<close>

definition update_linear_terms ::
  "'g random_state \<Rightarrow> 'g \<Rightarrow> int \<Rightarrow> bool \<Rightarrow> int set \<Rightarrow> relevance_map \<Rightarrow> sym list \<Rightarrow> expr
     \<Rightarrow> error + (relevance_map \<times> expr \<times> 'g)" where
  "update_linear_terms rng g num_features include_interaction_only_features relevant_features
     relevant_feature_map sym_features sym_polynomial_fn =
     (case interaction_only_features rng g include_interaction_only_features
             relevant_feature_map of
        Inl e \<Rightarrow> Inl e
      | Inr (only, g1) \<Rightarrow>
          (let linear_features = sorted_list_of_set (relevant_features - set only)
           in if num_features < 0 then Inl ValueError
              else
                (case rng_uniforms rng g1 (length linear_features) of
                   (vs, g2) \<Rightarrow>
                     (case np_assign (replicate (nat num_features) 0) linear_features vs of
                        Inl e \<Rightarrow> Inl e
                      | Inr coefficients \<Rightarrow>
                          (case add_linear coefficients linear_features relevant_feature_map of
                             Inl e \<Rightarrow> Inl e
                           | Inr m \<Rightarrow>
                               Inr (m,
                                    sym_polynomial_fn
                                      @ map (\<lambda>(c, x). (c, [x])) (zip coefficients sym_features),
                                    g2))))))"

text \<open>
  \<^verbatim>\<open>gen_polynomial(args, relevant_features)\<close>, from \<^verbatim>\<open>args.rng\<close> in state \<open>g\<close>,
  \<^verbatim>\<open>args.num_features\<close>, \<^verbatim>\<open>args.num_interactions\<close>,
  \<^verbatim>\<open>args.include_interaction_only_features\<close> and \<^verbatim>\<open>args.noise_type\<close> (here
  \<open>the_noise_type\<close>). The result is
  \<^verbatim>\<open>sym_vars\<close> (the feature symbols, the noise symbols and the model expression), the
  relevance map, the ground-truth polynomial and the state of the random source.
\<close>

definition gen_polynomial ::
  "'g random_state \<Rightarrow> 'g \<Rightarrow> int \<Rightarrow> int \<Rightarrow> bool \<Rightarrow> noise_type \<Rightarrow> int set
     \<Rightarrow> error + ((sym list \<times> sym list \<times> expr) \<times> relevance_map \<times> expr \<times> 'g)" where
  "gen_polynomial rng g num_features num_interactions include_interaction_only_features
     the_noise_type relevant_features =
     (let sym_features = map Feature [0..<nat num_features]
      in case update_interaction_terms rng g num_interactions relevant_features []
                sym_features [] of
           Inl e \<Rightarrow> Inl e
         | Inr (m1, p1, g1) \<Rightarrow>
             (case update_linear_terms rng g1 num_features include_interaction_only_features
                     relevant_features m1 sym_features p1 of
                Inl e \<Rightarrow> Inl e
              | Inr (relevant_feature_map, sym_polynomial_fn, g2) \<Rightarrow>
                  if the_noise_type = NO_NOISE then
                    Inr ((sym_features, [], sym_polynomial_fn), relevant_feature_map,
                         sym_polynomial_fn, g2)
                  else if the_noise_type = EPSILON_IRRELEVANT then
                    Inr ((sym_features, map NoiseAt [0..<nat num_features],
                          sym_polynomial_fn
                            @ map (\<lambda>x. (if int x \<in> relevant_features then 0 else 1,
                                         [NoiseAt x, Feature x])) [0..<nat num_features]),
                         relevant_feature_map, sym_polynomial_fn, g2)
                  else if the_noise_type = ADDITIVE_GAUSSIAN then
                    Inr ((sym_features, [NoiseSym], sym_polynomial_fn @ [(1, [NoiseSym])]),
                         relevant_feature_map, sym_polynomial_fn, g2)
                  else Inl NotImplementedError))"

text \<open>
  The contract of \<^verbatim>\<open>rng.choice\<close>: what it returns are positions of the population.
\<close>

definition choice_ok :: "'g random_state \<Rightarrow> bool" where
  "choice_ok rng =
     (\<forall>g n size positions g'. rng_choice rng g n size = Inr (positions, g') \<longrightarrow>
        (\<forall>p\<in>set positions. p < n))"

text \<open>
  The relevance map and the polynomial that \<^verbatim>\<open>gen_polynomial\<close> gives with the demo random
  source for four features, one interaction and the relevant features 1, 2 and 3.
\<close>

definition poly_map :: relevance_map where
  "poly_map = [({1, 2}, 1 / 2), ({2}, 1 / 2), ({3}, 1 / 2)]"

definition poly_expr :: expr where
  "poly_expr =
     [(1 / 2, [Feature 1, Feature 2]),
      (0, [Feature 0]), (0, [Feature 1]), (1 / 2, [Feature 2]), (1 / 2, [Feature 3])]"

section \<open>Properties of \<^verbatim>\<open>Model.predict\<close>\<close>

lemma predict_noise_NotImplemented_iff:
  assumes "\<And>g loc scale. prg_normal lib g loc scale \<noteq> Inl NotImplementedError"
  shows "predict_noise lib self static_data = Inl NotImplementedError \<longleftrightarrow>
         noise_type self \<noteq> EPSILON_IRRELEVANT \<and> noise_type self \<noteq> ADDITIVE_GAUSSIAN"
  using assms by (auto simp: predict_noise_def Let_def split: sum.splits prod.splits)

text \<open>
  C2. \<^verbatim>\<open>Model.predict\<close> with the noise type \<^verbatim>\<open>NO_NOISE\<close>: the claim says it succeeds
  and returns the ground-truth value. The code has no branch for \<^verbatim>\<open>NO_NOISE\<close>: the call
  falls to the \<^verbatim>\<open>else\<close> branch and raises \<^verbatim>\<open>NotImplementedError\<close>, for every model
  function, target and input.
\<close>

theorem predict_no_noise_raises:
  "predict lib (self\<lparr>noise_type := NO_NOISE\<rparr>) np_random target static_data temporal_data
     = (Inl NotImplementedError, np_random)"
  by (simp add: predict_def predict_noise_def)

lemma predict_seed_bytes:
  "tobytes lib static_data1 = tobytes lib static_data2 \<Longrightarrow>
     predict_seed lib static_data1 = predict_seed lib static_data2"
  by (simp add: predict_seed_def)

lemma predict_noise_bytes:
  "tobytes lib static_data1 = tobytes lib static_data2 \<Longrightarrow>
   array_size lib static_data1 = array_size lib static_data2 \<Longrightarrow>
     predict_noise lib self static_data1 = predict_noise lib self static_data2"
  by (simp add: predict_noise_def predict_seed_def Let_def)

text \<open>
  C5. \<^verbatim>\<open>Model.predict\<close> is deterministic in its static input. The seed is a function of
  the bytes of the static array alone, and the noise drawn a function of these bytes, the
  size of the array and the model: two arrays with the same bytes and size give the same
  seed and the same noise. For two calls on the same model with the same static array,
  whatever their targets, their temporal data and the states of NumPy's module-level
  generator when they start: the predictions are equal (or both calls raise the same
  error), and when the targets are equal too the results are equal. A call leaves the
  module-level generator in the state it found.
\<close>

theorem predict_deterministic:
  "tobytes lib static_data1 = tobytes lib static_data2 \<Longrightarrow>
   array_size lib static_data1 = array_size lib static_data2 \<Longrightarrow>
     predict_seed lib static_data1 = predict_seed lib static_data2 \<and>
     predict_noise lib self static_data1 = predict_noise lib self static_data2 \<and>
     (static_data1 = static_data2 \<longrightarrow>
        prediction_of (fst (predict lib self np_random1 target1 static_data1 temporal_data1))
          = prediction_of (fst (predict lib self np_random2 target2 static_data2 temporal_data2)) \<and>
        (target1 = target2 \<longrightarrow>
           fst (predict lib self np_random1 target1 static_data1 temporal_data1)
             = fst (predict lib self np_random2 target2 static_data2 temporal_data2))) \<and>
     snd (predict lib self np_random1 target1 static_data1 temporal_data1) = np_random1"
proof (intro conjI impI)
  assume b: "tobytes lib static_data1 = tobytes lib static_data2"
    and s: "array_size lib static_data1 = array_size lib static_data2"
  from b show "predict_seed lib static_data1 = predict_seed lib static_data2"
    by (rule predict_seed_bytes)
  from b s show "predict_noise lib self static_data1 = predict_noise lib self static_data2"
    by (rule predict_noise_bytes)
  show "snd (predict lib self np_random1 target1 static_data1 temporal_data1) = np_random1"
    by (simp add: predict_def)
next
  assume "static_data1 = static_data2"
  then show "prediction_of (fst (predict lib self np_random1 target1 static_data1 temporal_data1))
      = prediction_of (fst (predict lib self np_random2 target2 static_data2 temporal_data2))"
    by (simp add: predict_def prediction_of_def split: sum.splits)
next
  assume "static_data1 = static_data2" "target1 = target2"
  then show "fst (predict lib self np_random1 target1 static_data1 temporal_data1)
      = fst (predict lib self np_random2 target2 static_data2 temporal_data2)"
    by (simp add: predict_def)
qed

lemma demo_noise:
  "predict_noise demo_library (demo_model EPSILON_IRRELEVANT) demo_int64
     = Inr (NoiseColumn [4 / 25])"
  by (simp add: predict_noise_def predict_seed_def demo_library_def demo_model_def
      demo_int64_def)

lemma demo_prediction:
  "prediction_of (fst (predict demo_library (demo_model EPSILON_IRRELEVANT) g 3 demo_int64 t))
     = Inr (29 / 25)"
proof -
  have "model_fn (demo_model EPSILON_IRRELEVANT) demo_int64 (NoiseColumn [4 / 25])
      = Inr [29 / 25]"
    by (simp add: demo_model_def demo_model_fn_def demo_int64_def)
  then show ?thesis
    by (simp add: predict_def demo_noise prediction_of_def first_def)
qed

theorem predict_deterministic_witness:
  "demo_int64 \<noteq> demo_float64 \<and>
   predict_seed demo_library demo_int64 = predict_seed demo_library demo_float64 \<and>
   predict_noise demo_library (demo_model EPSILON_IRRELEVANT) demo_float64
     = Inr (NoiseColumn [4 / 25]) \<and>
   prediction_of (fst (predict demo_library (demo_model EPSILON_IRRELEVANT) 5 7 demo_int64
      [[5::nat, 6]])) = Inr (29 / 25) \<and>
   fst (predict demo_library (demo_model EPSILON_IRRELEVANT) 0 3 demo_int64 [[0::nat]])
     = fst (predict demo_library (demo_model EPSILON_IRRELEVANT) 5 3 demo_int64 [[5::nat, 6]]) \<and>
   snd (predict demo_library (demo_model EPSILON_IRRELEVANT) 5 3 demo_int64 [[5::nat, 6]]) = 5"
proof -
  have b: "tobytes demo_library demo_int64 = tobytes demo_library demo_float64"
    by (simp add: demo_library_def demo_int64_def demo_float64_def)
  have s: "array_size demo_library demo_int64 = array_size demo_library demo_float64"
    by (simp add: demo_library_def demo_int64_def demo_float64_def)
  have d: "demo_int64 \<noteq> demo_float64"
    by (simp add: demo_int64_def demo_float64_def)
  note bytes = predict_deterministic [OF b s, of "demo_model EPSILON_IRRELEVANT"]
  note same = predict_deterministic [OF refl refl, of demo_library demo_int64
      "demo_model EPSILON_IRRELEVANT" 0 3 "[[0::nat]]" 5 _ "[[5::nat, 6]]"]
  note state = predict_deterministic [OF refl refl, of demo_library demo_int64
      "demo_model EPSILON_IRRELEVANT" 5 3 "[[5::nat, 6]]"]
  have seed: "predict_seed demo_library demo_int64 = predict_seed demo_library demo_float64"
    using bytes by (rule conjunct1)
  have "predict_noise demo_library (demo_model EPSILON_IRRELEVANT) demo_int64
      = predict_noise demo_library (demo_model EPSILON_IRRELEVANT) demo_float64"
    using bytes [THEN conjunct2] by (rule conjunct1)
  then have noise: "predict_noise demo_library (demo_model EPSILON_IRRELEVANT) demo_float64
      = Inr (NoiseColumn [4 / 25])"
    by (simp only: demo_noise)
  have "prediction_of (fst (predict demo_library (demo_model EPSILON_IRRELEVANT) 0 3 demo_int64
      [[0::nat]])) = prediction_of (fst (predict demo_library (demo_model EPSILON_IRRELEVANT) 5 7
      demo_int64 [[5::nat, 6]]))"
    using same [of 7, THEN conjunct2, THEN conjunct2, THEN conjunct1] by (simp only: simp_thms)
  then have pred: "prediction_of (fst (predict demo_library (demo_model EPSILON_IRRELEVANT) 5 7
      demo_int64 [[5::nat, 6]])) = Inr (29 / 25)"
    by (simp only: demo_prediction)
  have res: "fst (predict demo_library (demo_model EPSILON_IRRELEVANT) 0 3 demo_int64 [[0::nat]])
     = fst (predict demo_library (demo_model EPSILON_IRRELEVANT) 5 3 demo_int64 [[5::nat, 6]])"
    using same [of 3, THEN conjunct2, THEN conjunct2, THEN conjunct1] by (simp only: simp_thms)
  have st: "snd (predict demo_library (demo_model EPSILON_IRRELEVANT) 5 3 demo_int64
      [[5::nat, 6]]) = 5"
    using state [THEN conjunct2, THEN conjunct2] by (rule conjunct2)
  from d seed noise pred res st show ?thesis by (intro conjI)
qed

section \<open>Relevance of the hierarchy\<close>

lemma getattrs_Inr_iff:
  "getattrs x cs = Inr vs \<longleftrightarrow> map (\<lambda>c. x (attrs c)) cs = map Some vs"
proof (induction cs arbitrary: vs)
  case Nil
  then show ?case by auto
next
  case (Cons c cs)
  show ?case
  proof (cases "x (attrs c)")
    case None
    then show ?thesis by auto
  next
    case (Some v)
    show ?thesis
    proof (cases "getattrs x cs")
      case (Inl e)
      with Cons.IH have "\<And>ws. map (\<lambda>c. x (attrs c)) cs \<noteq> map Some ws" by auto
      with Some Inl show ?thesis by (auto simp: map_eq_Cons_conv)
    next
      case (Inr ws)
      with Cons.IH have "map (\<lambda>c. x (attrs c)) cs = map Some ws" by auto
      with Some Inr show ?thesis by (auto simp: map_eq_Cons_conv)
    qed
  qed
qed

lemma relevance_body_index: "relevance_body m probs k st a cs = relevance_body m probs 0 () a cs"
  by (simp add: relevance_body_def)

lemma relevance_body_fix:
  "relevance_body m probs k st a cs = Inr (a', u) \<Longrightarrow> relevance_body m probs k' st' a' cs = Inr (a', ())"
  unfolding relevance_body_def Let_def
  by (auto split: if_splits option.splits sum.splits)

lemma post_order_for_annotated:
  "post_order_for (relevance_body m probs) k st t = Inr (t', k', st') \<Longrightarrow> annotated m probs t'"
  "post_order_for_list (relevance_body m probs) k st ts = Inr (ts', k', st') \<Longrightarrow> list_all (annotated m probs) ts'"
proof (induction "relevance_body m probs" k st t and "relevance_body m probs" k st ts arbitrary: t' k' st' and ts' k' st' rule: post_order_for_post_order_for_list.induct)
  case (1 idx st a cs)
  then show ?case
    by (auto split: sum.splits prod.splits dest: relevance_body_fix)
next
  case (2 idx st)
  then show ?case by simp
next
  case (3 idx st c cs)
  then show ?case by (auto split: sum.splits prod.splits)
qed


lemma leaves_Node:
  "leaves (Node a cs) = (if cs = [] then [Node a cs] else concat (map leaves cs))"
proof -
  have "filter is_leaf (concat (map PreOrderIter cs)) = concat (map leaves cs)"
    by (induction cs) (auto simp: leaves_def)
  then show ?thesis by (simp add: leaves_def is_leaf_def)
qed

lemma relevance_body_internal:
  "cs \<noteq> [] \<Longrightarrow> relevance_body m probs k st a cs = Inr (a', u) \<Longrightarrow>
     \<exists>ds. getattrs description cs = Inr ds \<and>
       description a' = Some (if list_ex (\<lambda>d. d \<noteq> IRRELEVANT) ds then RELEVANT else IRRELEVANT)"
  by (auto simp: relevance_body_def Let_def split: sum.splits if_splits)

lemma annotated_internal:
  assumes "annotated m probs (Node a cs)" and "cs \<noteq> []"
  shows "description a =
           Some (if \<exists>c\<in>set cs. description (attrs c) \<noteq> Some IRRELEVANT then RELEVANT else IRRELEVANT)"
    and "\<forall>c\<in>set cs. description (attrs c) \<noteq> None"
proof -
  from assms have "relevance_body m probs 0 () a cs = Inr (a, ())" by simp
  from relevance_body_internal [OF assms(2) this]
  obtain ds where ds: "getattrs description cs = Inr ds"
    and a: "description a = Some (if list_ex (\<lambda>d. d \<noteq> IRRELEVANT) ds then RELEVANT else IRRELEVANT)"
    by blast
  from ds have m: "map (\<lambda>c. description (attrs c)) cs = map Some ds"
    by (simp add: getattrs_Inr_iff)
  then have s: "(\<lambda>c. description (attrs c)) ` set cs = Some ` set ds"
    by (metis list.set_map)
  from s show "\<forall>c\<in>set cs. description (attrs c) \<noteq> None" by force
  have "list_ex (\<lambda>d. d \<noteq> IRRELEVANT) ds \<longleftrightarrow> (\<exists>c\<in>set cs. description (attrs c) \<noteq> Some IRRELEVANT)"
  proof
    assume "list_ex (\<lambda>d. d \<noteq> IRRELEVANT) ds"
    then obtain d where "d \<in> set ds" "d \<noteq> IRRELEVANT" by (auto simp: list_ex_iff)
    then have "Some d \<in> (\<lambda>c. description (attrs c)) ` set cs" using s by simp
    with \<open>d \<noteq> IRRELEVANT\<close> show "\<exists>c\<in>set cs. description (attrs c) \<noteq> Some IRRELEVANT" by force
  next
    assume "\<exists>c\<in>set cs. description (attrs c) \<noteq> Some IRRELEVANT"
    then obtain c where c: "c \<in> set cs" "description (attrs c) \<noteq> Some IRRELEVANT" by blast
    then have "description (attrs c) \<in> Some ` set ds" using s by blast
    with c show "list_ex (\<lambda>d. d \<noteq> IRRELEVANT) ds" by (auto simp: list_ex_iff)
  qed
  with a show "description a =
           Some (if \<exists>c\<in>set cs. description (attrs c) \<noteq> Some IRRELEVANT then RELEVANT else IRRELEVANT)"
    by simp
qed

lemma annotated_irrelevant_iff:
  "annotated m probs t \<Longrightarrow>
     description (attrs t) = Some IRRELEVANT \<longleftrightarrow>
       (\<forall>l\<in>set (leaves t). description (attrs l) = Some IRRELEVANT)"
proof (induction t)
  case (Node a cs)
  show ?case
  proof (cases "cs = []")
    case True
    then show ?thesis by (simp add: leaves_Node)
  next
    case False
    from Node.prems have cs: "\<forall>c\<in>set cs. annotated m probs c" by (simp add: list_all_iff)
    have "description a = Some IRRELEVANT \<longleftrightarrow> (\<forall>c\<in>set cs. description (attrs c) = Some IRRELEVANT)"
      using annotated_internal(1) [OF Node.prems False] by auto
    also have "\<dots> \<longleftrightarrow> (\<forall>c\<in>set cs. \<forall>l\<in>set (leaves c). description (attrs l) = Some IRRELEVANT)"
      using Node.IH cs by blast
    finally show ?thesis using False by (auto simp: leaves_Node)
  qed
qed

lemma annotated_subtrees:
  "annotated m probs t \<Longrightarrow> n \<in> set (PreOrderIter t) \<Longrightarrow> annotated m probs n"
proof (induction t)
  case (Node a cs)
  then show ?case by (auto simp: list_all_iff)
qed

lemma annotated_rerun:
  "annotated m probs t \<Longrightarrow>
     post_order_for (relevance_body m probs) k () t
       = Inr (t, k + length (PostOrderIter t), ())"
  "list_all (annotated m probs) ts \<Longrightarrow>
     post_order_for_list (relevance_body m probs) k () ts
       = Inr (ts, k + length (concat (map PostOrderIter ts)), ())"
proof (induction "relevance_body m probs" k "()" t and "relevance_body m probs" k "()" ts
    rule: post_order_for_post_order_for_list.induct)
  case (1 idx a cs)
  then show ?case
    using relevance_body_index [of m probs "idx + length (concat (map PostOrderIter cs))" "()" a cs]
    by simp
next
  case (2 idx)
  then show ?case by simp
next
  case (3 idx c cs)
  then show ?case by simp
qed


lemma update_hierarchy_relevance_annotated:
  "update_hierarchy_relevance t m probs = Inr t' \<Longrightarrow> annotated m probs t'"
  by (auto simp: update_hierarchy_relevance_def split: sum.splits dest: post_order_for_annotated(1))

text \<open>
  C7. After \<^verbatim>\<open>update_hierarchy_relevance\<close>, for every node of the hierarchy: its description
  is \<^verbatim>\<open>IRRELEVANT\<close> if and only if the description of every leaf below it is; an internal
  node is \<^verbatim>\<open>RELEVANT\<close> when some child is not \<^verbatim>\<open>IRRELEVANT\<close> and \<^verbatim>\<open>IRRELEVANT\<close>
  otherwise; and running \<^verbatim>\<open>update_hierarchy_relevance\<close> again, with the same map and
  probabilities, returns the same tree.
\<close>

theorem update_hierarchy_relevance_sound:
  assumes "update_hierarchy_relevance hierarchy_root relevant_feature_map probs = Inr t'"
  shows "(\<forall>n\<in>set (PreOrderIter t').
            (description (attrs n) = Some IRRELEVANT \<longleftrightarrow>
               (\<forall>l\<in>set (leaves n). description (attrs l) = Some IRRELEVANT)) \<and>
            (\<not> is_leaf n \<longrightarrow>
               description (attrs n) =
                 Some (if \<exists>c\<in>set (children n). description (attrs c) \<noteq> Some IRRELEVANT
                       then RELEVANT else IRRELEVANT))) \<and>
         update_hierarchy_relevance t' relevant_feature_map probs = Inr t'"
proof -
  have ann: "annotated relevant_feature_map probs t'"
    using assms by (rule update_hierarchy_relevance_annotated)
  have "update_hierarchy_relevance t' relevant_feature_map probs = Inr t'"
    using annotated_rerun(1) [OF ann, of 0] by (simp add: update_hierarchy_relevance_def)
  moreover have "description (attrs n) = Some IRRELEVANT \<longleftrightarrow>
      (\<forall>l\<in>set (leaves n). description (attrs l) = Some IRRELEVANT)"
    if "n \<in> set (PreOrderIter t')" for n
    using annotated_irrelevant_iff [OF annotated_subtrees [OF ann that]] .
  moreover have "description (attrs n) =
      Some (if \<exists>c\<in>set (children n). description (attrs c) \<noteq> Some IRRELEVANT
            then RELEVANT else IRRELEVANT)"
    if "n \<in> set (PreOrderIter t')" and "\<not> is_leaf n" for n
  proof -
    obtain a cs where n: "n = Node a cs" by (cases n)
    with that(2) have "cs \<noteq> []" by (simp add: is_leaf_def)
    from annotated_subtrees [OF ann that(1)] n have "annotated relevant_feature_map probs (Node a cs)"
      by simp
    from annotated_internal(1) [OF this \<open>cs \<noteq> []\<close>] n show ?thesis by simp
  qed
  ultimately show ?thesis by blast
qed

lemma py_int_0: "py_int ''0'' = Inr 0"
  by (simp add: py_int_def strip_def is_space_def literal_value_def digit_of_def)

lemma py_int_1: "py_int ''1'' = Inr 1"
  by (simp add: py_int_def strip_def is_space_def literal_value_def digit_of_def)

lemma demo_run:
  "update_hierarchy_relevance demo_hierarchy demo_relevance_map demo_probs = Inr demo_annotated"
  by (simp add: update_hierarchy_relevance_def demo_hierarchy_def demo_relevance_map_def
      demo_probs_def demo_annotated_def relevance_body_def new_node_def py_int_0 py_int_1
      py_index_def all_relevant_features_def truthy_def Let_def)


theorem update_hierarchy_relevance_sound_witness:
  "update_hierarchy_relevance demo_hierarchy demo_relevance_map demo_probs = Inr demo_annotated \<and>
   description (attrs demo_annotated) = Some RELEVANT \<and>
   is_leaf demo_annotated = False \<and>
   update_hierarchy_relevance demo_annotated demo_relevance_map demo_probs = Inr demo_annotated"
  using update_hierarchy_relevance_sound [OF demo_run] demo_run
  by (simp add: demo_annotated_def is_leaf_def)

lemma relevance_body_description:
  "relevance_body m probs k st a cs = Inr (a', u) \<Longrightarrow> description a' \<noteq> None"
  by (auto simp: relevance_body_def Let_def split: option.splits sum.splits if_splits)

lemma annotated_description: "annotated m probs t \<Longrightarrow> description (attrs t) \<noteq> None"
  by (cases t) (auto dest: relevance_body_description)

lemma getattrs_description_annotated:
  "list_all (annotated m probs) cs \<Longrightarrow> \<exists>ds. getattrs description cs = Inr ds"
proof (induction cs)
  case Nil
  then show ?case by simp
next
  case (Cons c cs)
  then obtain ds where "getattrs description cs = Inr ds" by auto
  moreover from Cons.prems obtain d where "description (attrs c) = Some d"
    using annotated_description [of m probs c] by auto
  ultimately show ?case by simp
qed

lemma relevance_body_leaf_returns:
  "leaf_ok probs a \<Longrightarrow> \<exists>a'. relevance_body m probs k st a [] = Inr (a', ())"
  by (auto simp: leaf_ok_def relevance_body_def Let_def split: option.splits sum.splits)

lemma relevance_body_internal_returns:
  "cs \<noteq> [] \<Longrightarrow> getattrs description cs = Inr ds \<Longrightarrow> \<exists>a'. relevance_body m probs k st a cs = Inr (a', ())"
  by (auto simp: relevance_body_def Let_def)

lemma post_order_for_relevance_returns:
  "(\<forall>l\<in>set (leaves t). leaf_ok probs (attrs l)) \<Longrightarrow>
     \<exists>t' k'. post_order_for (relevance_body m probs) k st t = Inr (t', k', ())"
  "(\<forall>c\<in>set ts. \<forall>l\<in>set (leaves c). leaf_ok probs (attrs l)) \<Longrightarrow>
     \<exists>ts' k'. post_order_for_list (relevance_body m probs) k st ts = Inr (ts', k', ())"
proof (induction "relevance_body m probs" k st t and "relevance_body m probs" k st ts
    rule: post_order_for_post_order_for_list.induct)
  case (1 idx st a cs)
  show ?case
  proof (cases "cs = []")
    case True
    with "1.prems" have "leaf_ok probs a" by (simp add: leaves_Node)
    from relevance_body_leaf_returns [OF this, of m idx st] True show ?thesis by auto
  next
    case False
    with "1.prems" have "\<forall>c\<in>set cs. \<forall>l\<in>set (leaves c). leaf_ok probs (attrs l)"
      by (auto simp: leaves_Node)
    from "1.hyps" [OF this] obtain cs' k' where
      r: "post_order_for_list (relevance_body m probs) idx st cs = Inr (cs', k', ())" by blast
    from post_order_for_annotated(2) [OF r] have "list_all (annotated m probs) cs'" .
    from getattrs_description_annotated [OF this] obtain ds where
      ds: "getattrs description cs' = Inr ds" by blast
    have "cs' \<noteq> []" using r False by (cases cs) (auto split: sum.splits)
    from relevance_body_internal_returns [OF this ds, of m probs k' "()" a] r
    show ?thesis by auto
  qed
next
  case (2 idx st)
  then show ?case by simp
next
  case (3 idx st c cs)
  from "3.prems" have "\<forall>l\<in>set (leaves c). leaf_ok probs (attrs l)" by simp
  from "3.hyps"(1) [OF this] obtain c' k' where
    c: "post_order_for (relevance_body m probs) idx st c = Inr (c', k', ())" by blast
  from "3.prems" have "\<forall>c\<in>set cs. \<forall>l\<in>set (leaves c). leaf_ok probs (attrs l)" by simp
  from "3.hyps"(2) [OF c refl refl this] obtain cs' k'' where
    "post_order_for_list (relevance_body m probs) k' () cs = Inr (cs', k'', ())" by blast
  with c show ?case by simp
qed


lemma update_hierarchy_relevance_returns:
  "(\<forall>l\<in>set (leaves t). leaf_ok probs (attrs l)) \<Longrightarrow>
     \<exists>t'. update_hierarchy_relevance t m probs = Inr t'"
  using post_order_for_relevance_returns(1) [of t probs m 0 "()"]
  by (auto simp: update_hierarchy_relevance_def)

section \<open>Ground-truth p-values: properties\<close>

lemma pvalue_body_fix:
  "pvalue_body k st a cs = Inr (a', u) \<Longrightarrow> pvalue_body k' st' a' cs = Inr (a', ())"
  unfolding pvalue_body_def Let_def
  by (auto split: if_splits option.splits sum.splits)

lemma pvalue_body_keeps:
  "pvalue_body k st a cs = Inr (a', u) \<Longrightarrow>
     description a' = description a \<and> poly_coeff a' = poly_coeff a \<and> bin_prob a' = bin_prob a"
  unfolding pvalue_body_def Let_def
  by (auto split: if_splits option.splits sum.splits)

lemma post_order_for_scored:
  "post_order_for pvalue_body k st t = Inr (t', k', st') \<Longrightarrow> scored t'"
  "post_order_for_list pvalue_body k st ts = Inr (ts', k', st') \<Longrightarrow> list_all scored ts'"
proof (induction pvalue_body k st t and pvalue_body k st ts arbitrary: t' k' st' and ts' k' st'
    rule: post_order_for_post_order_for_list.induct)
  case (1 idx st a cs)
  then show ?case
    by (auto split: sum.splits prod.splits dest: pvalue_body_fix)
next
  case (2 idx st)
  then show ?case by simp
next
  case (3 idx st c cs)
  then show ?case by (auto split: sum.splits prod.splits)
qed

lemma scored_subtrees: "scored t \<Longrightarrow> n \<in> set (PreOrderIter t) \<Longrightarrow> scored n"
proof (induction t)
  case (Node a cs)
  then show ?case by (auto simp: list_all_iff)
qed

lemma pvalue_body_internal:
  "cs \<noteq> [] \<Longrightarrow> pvalue_body k st a cs = Inr (a', u) \<Longrightarrow>
     \<exists>d. description a = Some d \<and>
       (d = IRRELEVANT \<longrightarrow> pvalue a' = Some 1) \<and>
       (d \<noteq> IRRELEVANT \<longrightarrow>
          (\<exists>ps. getattrs pvalue cs = Inr ps \<and> pvalue a' = Some (999 / 1000 * Min (set ps))))"
  unfolding pvalue_body_def Let_def
  by (auto split: if_splits option.splits sum.splits)

lemma pvalue_body_leaf:
  "pvalue_body k st a [] = Inr (a', u) \<Longrightarrow>
     \<exists>d. description a = Some d \<and>
       (d = IRRELEVANT \<longrightarrow> pvalue a' = Some 1) \<and>
       (d \<noteq> IRRELEVANT \<longrightarrow>
          (\<exists>c. poly_coeff a = Some c \<and>
             (c = 0 \<longrightarrow> pvalue a' = Some (1 / 1000)) \<and>
             (c \<noteq> 0 \<longrightarrow>
                (\<exists>p. bin_prob a = Some p \<and>
                   pvalue a' = Some (min_with_quotient (1 / 1000) ((c * p) ^ 3))))))"
  unfolding pvalue_body_def Let_def
  by (auto split: if_splits option.splits sum.splits)

lemma pvalue_body_pvalue:
  assumes "pvalue_body k st a cs = Inr (a', u)"
  shows "pvalue a' \<noteq> None"
proof (cases "cs = []")
  case True
  with pvalue_body_leaf [of k st a a' u] assms show ?thesis by force
next
  case False
  from pvalue_body_internal [OF False assms] show ?thesis by force
qed

lemma scored_pvalue: "scored t \<Longrightarrow> pvalue (attrs t) \<noteq> None"
  by (cases t) (auto dest: pvalue_body_pvalue)

lemma getattrs_pvalue_scored:
  "list_all scored cs \<Longrightarrow> getattrs pvalue cs = Inr (map (\<lambda>c. the (pvalue (attrs c))) cs)"
proof (induction cs)
  case Nil
  then show ?case by simp
next
  case (Cons c cs)
  then show ?case using scored_pvalue [of c] by auto
qed

lemma scored_internal:
  assumes "scored n" and "\<not> is_leaf n"
  shows "description (attrs n) \<noteq> None"
    and "description (attrs n) \<noteq> Some IRRELEVANT \<Longrightarrow>
           pvalue (attrs n) = Some (999 / 1000 * min_child_pvalue n)"
    and "description (attrs n) = Some IRRELEVANT \<Longrightarrow> pvalue (attrs n) = Some 1"
proof -
  obtain a cs where n: "n = Node a cs" by (cases n)
  with assms have cs: "cs \<noteq> []" and all: "list_all scored cs"
    and b: "pvalue_body 0 () a cs = Inr (a, ())"
    by (simp_all add: is_leaf_def)
  note g = getattrs_pvalue_scored [OF all]
  from pvalue_body_internal [OF cs b] obtain d where d: "description a = Some d"
    and irr: "d = IRRELEVANT \<longrightarrow> pvalue a = Some 1"
    and rel: "d \<noteq> IRRELEVANT \<longrightarrow>
          (\<exists>ps. getattrs pvalue cs = Inr ps \<and> pvalue a = Some (999 / 1000 * Min (set ps)))"
    by blast
  from d n show "description (attrs n) \<noteq> None" by simp
  show "pvalue (attrs n) = Some (999 / 1000 * min_child_pvalue n)"
    if "description (attrs n) \<noteq> Some IRRELEVANT"
    using that rel d g n by (auto simp: min_child_pvalue_def)
  show "pvalue (attrs n) = Some 1" if "description (attrs n) = Some IRRELEVANT"
    using that irr d n by simp
qed

lemma min_with_quotient_pos: "0 < pv \<Longrightarrow> 0 \<le> x \<Longrightarrow> 0 < min_with_quotient pv x"
  by (auto simp: min_with_quotient_def)

lemma scored_leaf:
  assumes "scored n" and "is_leaf n"
  shows "description (attrs n) \<noteq> None"
    and "description (attrs n) = Some IRRELEVANT \<Longrightarrow> pvalue (attrs n) = Some 1"
    and "description (attrs n) \<noteq> Some IRRELEVANT \<Longrightarrow> poly_coeff (attrs n) \<noteq> None"
    and "description (attrs n) \<noteq> Some IRRELEVANT \<Longrightarrow> poly_coeff (attrs n) = Some 0 \<Longrightarrow>
           pvalue (attrs n) = Some (1 / 1000)"
    and "description (attrs n) \<noteq> Some IRRELEVANT \<Longrightarrow> poly_coeff (attrs n) = Some c \<Longrightarrow> c \<noteq> 0 \<Longrightarrow>
           \<exists>p. bin_prob (attrs n) = Some p \<and>
               pvalue (attrs n) = Some (min_with_quotient (1 / 1000) ((c * p) ^ 3))"
proof -
  obtain a cs where n: "n = Node a cs" by (cases n)
  with assms have b: "pvalue_body 0 () a [] = Inr (a, ())"
    by (simp_all add: is_leaf_def)
  from pvalue_body_leaf [OF b] obtain d where d: "description a = Some d"
    and irr: "d = IRRELEVANT \<longrightarrow> pvalue a = Some 1"
    and rel: "d \<noteq> IRRELEVANT \<longrightarrow>
          (\<exists>c. poly_coeff a = Some c \<and>
             (c = 0 \<longrightarrow> pvalue a = Some (1 / 1000)) \<and>
             (c \<noteq> 0 \<longrightarrow>
                (\<exists>p. bin_prob a = Some p \<and>
                   pvalue a = Some (min_with_quotient (1 / 1000) ((c * p) ^ 3)))))"
    by blast
  from d n show "description (attrs n) \<noteq> None" by simp
  show "pvalue (attrs n) = Some 1" if "description (attrs n) = Some IRRELEVANT"
    using that irr d n by simp
  show "poly_coeff (attrs n) \<noteq> None" if "description (attrs n) \<noteq> Some IRRELEVANT"
    using that rel d n by auto
  show "pvalue (attrs n) = Some (1 / 1000)"
    if "description (attrs n) \<noteq> Some IRRELEVANT" "poly_coeff (attrs n) = Some 0"
    using that rel d n by auto
  show "\<exists>p. bin_prob (attrs n) = Some p \<and>
               pvalue (attrs n) = Some (min_with_quotient (1 / 1000) ((c * p) ^ 3))"
    if "description (attrs n) \<noteq> Some IRRELEVANT" "poly_coeff (attrs n) = Some c" "c \<noteq> 0"
    using that rel d n by auto
qed

lemma scored_pvalue_pos:
  "scored t \<Longrightarrow> (\<forall>l\<in>set (leaves t). nonneg_attrs (attrs l)) \<Longrightarrow> 0 < the (pvalue (attrs t))"
proof (induction t)
  case (Node a cs)
  let ?n = "Node a cs"
  show ?case
  proof (cases "cs = []")
    case True
    then have leaf: "is_leaf ?n" by (simp add: is_leaf_def)
    from Node.prems(2) True have nn: "nonneg_attrs a" by (simp add: leaves_Node)
    show ?thesis
    proof (cases "description a = Some IRRELEVANT")
      case True
      with scored_leaf(2) [OF Node.prems(1) leaf] show ?thesis by simp
    next
      case False
      with scored_leaf(3) [OF Node.prems(1) leaf] obtain c where c: "poly_coeff a = Some c" by auto
      show ?thesis
      proof (cases "c = 0")
        case True
        with scored_leaf(4) [OF Node.prems(1) leaf] False c show ?thesis by simp
      next
        case nz: False
        from scored_leaf(5) [OF Node.prems(1) leaf _ _ nz] False c obtain p where
          p: "bin_prob a = Some p" "pvalue a = Some (min_with_quotient (1 / 1000) ((c * p) ^ 3))"
          by auto
        from nn c p have "0 \<le> c * p" by (simp add: nonneg_attrs_def)
        then have "0 \<le> (c * p) ^ 3" by simp
        with p show ?thesis by (simp add: min_with_quotient_pos)
      qed
    qed
  next
    case False
    then have int: "\<not> is_leaf ?n" by (simp add: is_leaf_def)
    show ?thesis
    proof (cases "description a = Some IRRELEVANT")
      case True
      with scored_internal(3) [OF Node.prems(1) int] show ?thesis by simp
    next
      case rel: False
      from Node.prems(1) have "\<forall>c\<in>set cs. scored c" by (simp add: list_all_iff)
      moreover from Node.prems(2) False have
        "\<forall>c\<in>set cs. \<forall>l\<in>set (leaves c). nonneg_attrs (attrs l)" by (auto simp: leaves_Node)
      ultimately have "\<forall>c\<in>set cs. 0 < the (pvalue (attrs c))" using Node.IH by blast
      with False have "0 < min_child_pvalue ?n" by (simp add: min_child_pvalue_def)
      with scored_internal(2) [OF Node.prems(1) int] rel show ?thesis by simp
    qed
  qed
qed


lemmas py_int_eval = py_int_def strip_def is_space_def literal_value_def digit_of_def

lemma pv_annotated_run:
  "update_hierarchy_relevance pv_hierarchy pv_relevance_map pv_probs = Inr pv_annotated"
  by (simp add: update_hierarchy_relevance_def pv_hierarchy_def pv_relevance_map_def
      pv_probs_def pv_annotated_def pv_inner_def pv_leaf0_def pv_leaf1_def pv_leaf2_def
      relevance_body_def new_node_def py_int_eval
      py_index_def all_relevant_features_def truthy_def Let_def)

lemma pv_quotient1: "min_with_quotient (1 / 1000) ((1 / 1000) ^ 3) = 1 / 1000"
  by (simp add: min_with_quotient_def min_def power3_eq_cube)

lemma pv_quotient2: "min_with_quotient (1 / 1000) ((1 / 4) ^ 3) = 64 / 10 ^ 10"
  by (simp add: min_with_quotient_def min_def power3_eq_cube)

lemma pv_scored_run: "compare_with_ground_truth pv_annotated = Inr pv_scored"
  by (simp add: compare_with_ground_truth_def pv_annotated_def pv_inner_def pv_leaf0_def
      pv_leaf1_def pv_leaf2_def pv_scored_def pv_scored_inner_def pv_scored_leaf1_def
      pv_scored_leaf2_def with_pvalue_def pvalue_body_def pv_quotient1 pv_quotient2 new_node_def
      Let_def min_def)


lemma compare_with_ground_truth_scored:
  "compare_with_ground_truth t = Inr t' \<Longrightarrow> scored t'"
  by (auto simp: compare_with_ground_truth_def split: sum.splits dest: post_order_for_scored(1))

lemma leaves_subtree:
  "n \<in> set (PreOrderIter t) \<Longrightarrow> set (leaves n) \<subseteq> set (leaves t)"
proof (induction t)
  case (Node a cs)
  show ?case
  proof (cases "n = Node a cs")
    case True
    then show ?thesis by simp
  next
    case False
    with Node.prems obtain c where c: "c \<in> set cs" "n \<in> set (PreOrderIter c)" by auto
    then have "cs \<noteq> []" by auto
    with Node.IH [OF c] c(1) show ?thesis by (auto simp: leaves_Node)
  qed
qed

lemma leaf_in_leaves: "is_leaf n \<Longrightarrow> n \<in> set (leaves n)"
  by (cases n) (simp add: leaves_Node is_leaf_def)

lemma min_with_quotient_le: "min_with_quotient pv x \<le> pv"
  by (simp add: min_with_quotient_def)

lemma scored_pvalue_le_one: "scored t \<Longrightarrow> the (pvalue (attrs t)) \<le> 1"
proof (induction t)
  case (Node a cs)
  let ?n = "Node a cs"
  show ?case
  proof (cases "cs = []")
    case True
    then have leaf: "is_leaf ?n" by (simp add: is_leaf_def)
    show ?thesis
    proof (cases "description a = Some IRRELEVANT")
      case True
      with scored_leaf(2) [OF Node.prems leaf] show ?thesis by simp
    next
      case False
      with scored_leaf(3) [OF Node.prems leaf] obtain c where c: "poly_coeff a = Some c" by auto
      show ?thesis
      proof (cases "c = 0")
        case True
        with scored_leaf(4) [OF Node.prems leaf] False c show ?thesis by simp
      next
        case nz: False
        from scored_leaf(5) [OF Node.prems leaf _ _ nz] False c obtain p where
          p: "pvalue a = Some (min_with_quotient (1 / 1000) ((c * p) ^ 3))"
          by auto
        have "min_with_quotient (1 / 1000) ((c * p) ^ 3) \<le> 1 / 1000"
          by (rule min_with_quotient_le)
        with p show ?thesis by simp
      qed
    qed
  next
    case False
    then have int: "\<not> is_leaf ?n" by (simp add: is_leaf_def)
    show ?thesis
    proof (cases "description a = Some IRRELEVANT")
      case True
      with scored_internal(3) [OF Node.prems int] show ?thesis by simp
    next
      case rel: False
      from Node.prems have "\<forall>c\<in>set cs. scored c" by (simp add: list_all_iff)
      with Node.IH have le: "\<forall>c\<in>set cs. the (pvalue (attrs c)) \<le> 1" by blast
      from False obtain c where c: "c \<in> set cs" by (cases cs) auto
      have "min_child_pvalue ?n \<le> the (pvalue (attrs c))"
        unfolding min_child_pvalue_def using c by (intro Min_le) auto
      with le c have "min_child_pvalue ?n \<le> 1" by fastforce
      with scored_internal(2) [OF Node.prems int] rel show ?thesis by simp
    qed
  qed
qed

lemma min_child_pvalue_le_one:
  assumes "scored n" and "\<not> is_leaf n"
  shows "min_child_pvalue n \<le> 1"
proof -
  obtain a cs where n: "n = Node a cs" by (cases n)
  with assms have all: "\<forall>c\<in>set cs. scored c" and "cs \<noteq> []"
    by (simp_all add: list_all_iff is_leaf_def)
  then obtain c where c: "c \<in> set cs" by (cases cs) auto
  have "min_child_pvalue n \<le> the (pvalue (attrs c))"
    unfolding min_child_pvalue_def n using c by (intro Min_le) auto
  moreover from all c have "the (pvalue (attrs c)) \<le> 1" by (simp add: scored_pvalue_le_one)
  ultimately show ?thesis by simp
qed

text \<open>
  C3, as the code has it. After \<^verbatim>\<open>compare_with_ground_truth\<close>, where no coefficient and no
  probability is negative:
  \<^item> an internal node whose description is not \<^verbatim>\<open>IRRELEVANT\<close> has 0.999 times the least
    p-value of its children, which is strictly less than that least p-value;
  \<^item> an internal node whose description is \<^verbatim>\<open>IRRELEVANT\<close> has the p-value 1.0, which is not
    less than the least p-value of its children, no p-value being more than 1.0;
  \<^item> a leaf whose description is not \<^verbatim>\<open>IRRELEVANT\<close> has a p-value of at most 0.001, the
    baseline.
\<close>

theorem compare_with_ground_truth_pvalues:
  assumes "compare_with_ground_truth hierarchy_root = Inr t'"
    and "\<forall>l\<in>set (leaves t'). nonneg_attrs (attrs l)"
  shows "\<forall>n\<in>set (PreOrderIter t').
           (\<not> is_leaf n \<and> description (attrs n) \<noteq> Some IRRELEVANT \<longrightarrow>
              pvalue (attrs n) = Some (999 / 1000 * min_child_pvalue n) \<and>
              the (pvalue (attrs n)) < min_child_pvalue n) \<and>
           (\<not> is_leaf n \<and> description (attrs n) = Some IRRELEVANT \<longrightarrow>
              pvalue (attrs n) = Some 1 \<and> min_child_pvalue n \<le> 1 \<and>
              \<not> the (pvalue (attrs n)) < min_child_pvalue n) \<and>
           (is_leaf n \<and> description (attrs n) \<noteq> Some IRRELEVANT \<longrightarrow>
              the (pvalue (attrs n)) \<le> 1 / 1000)"
proof
  fix n assume n: "n \<in> set (PreOrderIter t')"
  have sc: "scored n"
    using scored_subtrees [OF compare_with_ground_truth_scored [OF assms(1)] n] .
  have nn: "\<forall>l\<in>set (leaves n). nonneg_attrs (attrs l)"
    using leaves_subtree [OF n] assms(2) by blast
  have A: "pvalue (attrs n) = Some (999 / 1000 * min_child_pvalue n) \<and>
           the (pvalue (attrs n)) < min_child_pvalue n"
    if "\<not> is_leaf n" "description (attrs n) \<noteq> Some IRRELEVANT"
  proof -
    have pv: "pvalue (attrs n) = Some (999 / 1000 * min_child_pvalue n)"
      using scored_internal(2) [OF sc that] .
    have "0 < the (pvalue (attrs n))" using scored_pvalue_pos [OF sc nn] .
    with pv have "0 < min_child_pvalue n" by simp
    with pv show ?thesis by simp
  qed
  have B: "pvalue (attrs n) = Some 1 \<and> min_child_pvalue n \<le> 1 \<and>
           \<not> the (pvalue (attrs n)) < min_child_pvalue n"
    if "\<not> is_leaf n" "description (attrs n) = Some IRRELEVANT"
  proof -
    have pv: "pvalue (attrs n) = Some 1" using scored_internal(3) [OF sc that] .
    have "min_child_pvalue n \<le> 1" using min_child_pvalue_le_one [OF sc that(1)] .
    with pv show ?thesis by simp
  qed
  have C: "the (pvalue (attrs n)) \<le> 1 / 1000"
    if leaf: "is_leaf n" and rel: "description (attrs n) \<noteq> Some IRRELEVANT"
  proof -
    from scored_leaf(3) [OF sc leaf rel] obtain c where c: "poly_coeff (attrs n) = Some c" by auto
    show ?thesis
    proof (cases "c = 0")
      case True
      with scored_leaf(4) [OF sc leaf rel] c show ?thesis by simp
    next
      case False
      from scored_leaf(5) [OF sc leaf rel c False] obtain p where
        p: "pvalue (attrs n) = Some (min_with_quotient (1 / 1000) ((c * p) ^ 3))" by blast
      from min_with_quotient_le [of "1 / 1000" "(c * p) ^ 3"] p show ?thesis by simp
    qed
  qed
  from A B C show
    "(\<not> is_leaf n \<and> description (attrs n) \<noteq> Some IRRELEVANT \<longrightarrow>
              pvalue (attrs n) = Some (999 / 1000 * min_child_pvalue n) \<and>
              the (pvalue (attrs n)) < min_child_pvalue n) \<and>
           (\<not> is_leaf n \<and> description (attrs n) = Some IRRELEVANT \<longrightarrow>
              pvalue (attrs n) = Some 1 \<and> min_child_pvalue n \<le> 1 \<and>
              \<not> the (pvalue (attrs n)) < min_child_pvalue n) \<and>
           (is_leaf n \<and> description (attrs n) \<noteq> Some IRRELEVANT \<longrightarrow>
              the (pvalue (attrs n)) \<le> 1 / 1000)"
    by blast
qed

lemmas pv_scored_defs = pv_scored_def pv_scored_inner_def pv_scored_leaf1_def
  pv_scored_leaf2_def with_pvalue_def pv_annotated_def pv_inner_def pv_leaf0_def pv_leaf1_def
  pv_leaf2_def new_node_def

lemma pv_scored_nonneg: "\<forall>l\<in>set (leaves pv_scored). nonneg_attrs (attrs l)"
  by (simp add: leaves_def is_leaf_def nonneg_attrs_def pv_scored_defs)

theorem compare_with_ground_truth_pvalues_witness:
  "compare_with_ground_truth pv_annotated = Inr pv_scored \<and>
   is_leaf pv_scored = False \<and>
   description (attrs pv_scored) = Some RELEVANT \<and>
   pvalue (attrs pv_scored) = Some (999 / 1000 * min_child_pvalue pv_scored) \<and>
   the (pvalue (attrs pv_scored)) < min_child_pvalue pv_scored \<and>
   min_child_pvalue pv_scored = 64 / 10 ^ 10 \<and>
   is_leaf pv_scored_inner = False \<and>
   description (attrs pv_scored_inner) = Some IRRELEVANT \<and>
   pvalue (attrs pv_scored_inner) = Some 1 \<and>
   min_child_pvalue pv_scored_inner = 1 \<and>
   is_leaf pv_scored_leaf2 \<and>
   description (attrs pv_scored_leaf2) \<noteq> Some IRRELEVANT \<and>
   the (pvalue (attrs pv_scored_leaf2)) \<le> 1 / 1000"
proof -
  note pvalues = compare_with_ground_truth_pvalues [OF pv_scored_run pv_scored_nonneg, THEN bspec]
  have root: "pv_scored \<in> set (PreOrderIter pv_scored)"
    by (simp add: pv_scored_def with_pvalue_def)
  have inner: "pv_scored_inner \<in> set (PreOrderIter pv_scored)"
    and leaf2: "pv_scored_leaf2 \<in> set (PreOrderIter pv_scored)"
    by (simp_all add: pv_scored_defs)
  have facts: "is_leaf pv_scored = False" "description (attrs pv_scored) = Some RELEVANT"
    "min_child_pvalue pv_scored = 64 / 10 ^ 10"
    by (simp_all add: is_leaf_def min_child_pvalue_def pv_scored_defs)
  have facts_inner: "is_leaf pv_scored_inner = False"
    "description (attrs pv_scored_inner) = Some IRRELEVANT"
    "min_child_pvalue pv_scored_inner = 1"
    by (simp_all add: is_leaf_def min_child_pvalue_def pv_scored_defs)
  have facts_leaf2: "is_leaf pv_scored_leaf2"
    "description (attrs pv_scored_leaf2) \<noteq> Some IRRELEVANT"
    by (simp_all add: is_leaf_def pv_scored_defs)
  from pvalues [OF root] facts
  have r: "pvalue (attrs pv_scored) = Some (999 / 1000 * min_child_pvalue pv_scored) \<and>
      the (pvalue (attrs pv_scored)) < min_child_pvalue pv_scored"
    by simp
  from pvalues [OF inner] facts_inner(1,2)
  have i: "pvalue (attrs pv_scored_inner) = Some 1" by simp
  from pvalues [OF leaf2] facts_leaf2
  have l: "the (pvalue (attrs pv_scored_leaf2)) \<le> 1 / 1000" by simp
  from pv_scored_run facts r facts_inner i facts_leaf2 l show ?thesis by simp
qed

text \<open>
  C3 as the claim states it fails on the hierarchy above, once annotated: the internal node
  over the irrelevant leaf gets the p-value 1.0, which is the least p-value of its children
  and not less; and the leaf of feature 1, with the coefficient 1/10 and the probability
  1/100, gets the baseline 0.001 itself.
\<close>

theorem compare_with_ground_truth_pvalues_counterexample:
  "update_hierarchy_relevance pv_hierarchy pv_relevance_map pv_probs = Inr pv_annotated \<and>
   compare_with_ground_truth pv_annotated = Inr pv_scored \<and>
   pv_scored_inner \<in> set (PreOrderIter pv_scored) \<and>
   is_leaf pv_scored_inner = False \<and>
   \<not> the (pvalue (attrs pv_scored_inner)) < min_child_pvalue pv_scored_inner \<and>
   pv_scored_leaf1 \<in> set (PreOrderIter pv_scored) \<and>
   is_leaf pv_scored_leaf1 \<and>
   poly_coeff (attrs pv_scored_leaf1) = Some (1 / 10) \<and>
   \<not> the (pvalue (attrs pv_scored_leaf1)) < 1 / 1000"
  using pv_annotated_run pv_scored_run
  by (simp add: is_leaf_def min_child_pvalue_def pv_scored_defs)


section \<open>Evaluation: properties\<close>

lemma upward_closed_Node:
  "upward_closed (Node a cs) \<longleftrightarrow>
     (\<forall>c\<in>set cs. (rejected (attrs c) \<longrightarrow> rejected a) \<and> upward_closed c)"
  by (auto simp: upward_closed_def list_all_iff)

lemma upward_closed_subtree:
  "upward_closed t \<Longrightarrow> n \<in> set (PreOrderIter t) \<Longrightarrow> upward_closed n"
proof (induction t)
  case (Node a cs)
  then show ?case by (auto simp: upward_closed_Node)
qed

lemma not_rejected_below:
  "upward_closed t \<Longrightarrow> \<not> rejected (attrs t) \<Longrightarrow> d \<in> set (PreOrderIter t) \<Longrightarrow> \<not> rejected (attrs d)"
proof (induction t)
  case (Node a cs)
  show ?case
  proof (cases "d = Node a cs")
    case True
    with Node.prems show ?thesis by simp
  next
    case False
    with Node.prems(3) obtain c where c: "c \<in> set cs" "d \<in> set (PreOrderIter c)" by auto
    from Node.prems(1,2) c(1) have "upward_closed c" "\<not> rejected (attrs c)"
      by (auto simp: upward_closed_Node)
    from Node.IH [OF c(1) this c(2)] show ?thesis .
  qed
qed

lemma children_in_descendants: "set (children n) \<subseteq> set (descendants n)"
proof (cases n)
  case (Node a cs)
  have "c \<in> set (PreOrderIter c)" for c :: "'a tree" by (cases c) simp
  with Node show ?thesis by (auto simp: descendants_def)
qed

lemma no_rejected_child_iff:
  assumes "upward_closed n"
  shows "list_all (\<lambda>child. \<not> rejected (attrs child)) (children n) \<longleftrightarrow>
         (\<forall>d\<in>set (descendants n). \<not> rejected (attrs d))"
proof
  assume "list_all (\<lambda>child. \<not> rejected (attrs child)) (children n)"
  then have ch: "\<forall>c\<in>set (children n). \<not> rejected (attrs c)" by (simp add: list_all_iff)
  show "\<forall>d\<in>set (descendants n). \<not> rejected (attrs d)"
  proof
    fix d assume "d \<in> set (descendants n)"
    then obtain c where c: "c \<in> set (children n)" "d \<in> set (PreOrderIter c)"
      by (auto simp: descendants_def)
    from assms c(1) have "upward_closed c" by (cases n) (auto simp: upward_closed_Node)
    from not_rejected_below [OF this _ c(2)] ch c(1) show "\<not> rejected (attrs d)" by blast
  qed
next
  assume "\<forall>d\<in>set (descendants n). \<not> rejected (attrs d)"
  with children_in_descendants [of n] show "list_all (\<lambda>child. \<not> rejected (attrs child)) (children n)"
    by (auto simp: list_all_iff)
qed

text \<open>
  C4, as the code has it. The nodes of the outer-nodes metrics are the rejected nodes none of
  whose children is rejected, in pre-order. In a tree where the parent of every rejected node
  is rejected, these are the rejected nodes with no rejected descendant.
\<close>

theorem outer_nodes_frontier:
  "selected_nodes (PreOrderIter tree) True False =
     filter (\<lambda>node. rejected (attrs node) \<and> (\<forall>child\<in>set (children node). \<not> rejected (attrs child)))
       (PreOrderIter tree) \<and>
   (upward_closed tree \<longrightarrow>
      selected_nodes (PreOrderIter tree) True False =
        filter (\<lambda>node. rejected (attrs node) \<and> (\<forall>d\<in>set (descendants node). \<not> rejected (attrs d)))
          (PreOrderIter tree))"
proof -
  have "selected_nodes (PreOrderIter tree) True False =
      filter (\<lambda>node. rejected (attrs node) \<and> (\<forall>d\<in>set (descendants node). \<not> rejected (attrs d)))
        (PreOrderIter tree)" if "upward_closed tree"
    unfolding selected_nodes_def
    using no_rejected_child_iff [OF upward_closed_subtree [OF that]]
    by (auto intro!: filter_cong)
  then show ?thesis by (simp add: selected_nodes_def list_all_iff)
qed


theorem outer_nodes_frontier_witness:
  "upward_closed closed_tree \<and>
   selected_nodes (PreOrderIter closed_tree) True False = [fdr_leaf ''0'' RELEVANT_INTERACTION_ONLY True] \<and>
   filter (\<lambda>node. rejected (attrs node) \<and> (\<forall>d\<in>set (descendants node). \<not> rejected (attrs d)))
     (PreOrderIter closed_tree) = [fdr_leaf ''0'' RELEVANT_INTERACTION_ONLY True]"
proof -
  have c: "upward_closed closed_tree"
    by (simp add: upward_closed_def closed_tree_def fdr_leaf_def)
  have s: "selected_nodes (PreOrderIter closed_tree) True False
      = [fdr_leaf ''0'' RELEVANT_INTERACTION_ONLY True]"
    by (simp add: selected_nodes_def closed_tree_def fdr_leaf_def)
  have d: "selected_nodes (PreOrderIter closed_tree) True False =
      filter (\<lambda>node. rejected (attrs node) \<and> (\<forall>d\<in>set (descendants node). \<not> rejected (attrs d)))
        (PreOrderIter closed_tree)"
    using outer_nodes_frontier [of closed_tree] c by blast
  from c s d [symmetric] show ?thesis by (simp only: simp_thms)
qed

text \<open>
  C4 as the claim states it fails on the second tree: its root is rejected, none of its
  children is, and its grandchild is a rejected descendant. The code takes the root among
  the outer nodes.
\<close>

theorem outer_nodes_frontier_counterexample:
  "selected_nodes (PreOrderIter gap_tree) True False
     = [gap_tree, fdr_leaf ''0'' RELEVANT_INTERACTION_ONLY True] \<and>
   filter (\<lambda>node. rejected (attrs node) \<and> \<not> list_ex (\<lambda>d. rejected (attrs d)) (descendants node))
     (PreOrderIter gap_tree) = [fdr_leaf ''0'' RELEVANT_INTERACTION_ONLY True] \<and>
   fdr_leaf ''0'' RELEVANT_INTERACTION_ONLY True \<in> set (descendants gap_tree) \<and>
   rejected (attrs gap_tree) \<and>
   get_relevant_rejected (PreOrderIter gap_tree) True False = Inr ([1, 1], [1, 1])"
  by (simp add: selected_nodes_def get_relevant_rejected_def gap_tree_def gap_inner_def
      fdr_leaf_def descendants_def)


lemma get_precision_recall_interactions_disabled:
  "get_precision_recall_interactions False m fm itree = Inr (0, 0)"
  by (simp add: get_precision_recall_interactions_def)

lemma get_precision_recall_interactions_no_tp:
  "count_tested m fm (children itree) \<lparr>tp = 0, fp = 0, tn = 0, fn = 0, tested = {}\<rparr> = Inr st \<Longrightarrow>
     tp st = 0 \<Longrightarrow> get_precision_recall_interactions True m fm itree = Inr (0, 0)"
  by (simp add: get_precision_recall_interactions_def)

lemma evaluate_interactions:
  "evaluate prfs analyze m fm tree itree = Inr res \<Longrightarrow>
     \<exists>pr rc. get_precision_recall_interactions analyze m fm itree = Inr (pr, rc) \<and>
       INTERACTIONS_FDR res = 1 - pr \<and> INTERACTIONS_POWER res = rc"
  by (auto simp: evaluate_def Let_def split: sum.splits prod.splits)

text \<open>
  C1, as the code has it. When interaction analysis is disabled, or it is enabled and the
  loop over the tested pairs ends with no true positive, \<^verbatim>\<open>get_precision_recall_interactions\<close>
  returns the pair (precision, recall) = (0.0, 0.0); \<^verbatim>\<open>evaluate\<close> reports one minus the
  precision as the FDR, so its result has the interaction FDR 1.0 and the interaction power
  0.0, whatever the relevance map, the feature-id map and the trees.
\<close>

theorem evaluate_interactions_fallback:
  assumes "evaluate prfs analyze_interactions relevant_feature_map feature_id_map tree itree = Inr res"
    and "\<not> analyze_interactions \<or>
         (\<exists>st. count_tested relevant_feature_map feature_id_map (children itree)
                  \<lparr>tp = 0, fp = 0, tn = 0, fn = 0, tested = {}\<rparr> = Inr st \<and> tp st = 0)"
  shows "get_precision_recall_interactions analyze_interactions relevant_feature_map
           feature_id_map itree = Inr (0, 0) \<and>
         INTERACTIONS_FDR res = 1 \<and> INTERACTIONS_POWER res = 0"
proof -
  have "get_precision_recall_interactions analyze_interactions relevant_feature_map
           feature_id_map itree = Inr (0, 0)"
  proof (cases analyze_interactions)
    case False
    then show ?thesis by (simp add: get_precision_recall_interactions_disabled)
  next
    case True
    with assms(2) show ?thesis by (auto simp: get_precision_recall_interactions_no_tp)
  qed
  with evaluate_interactions [OF assms(1)] show ?thesis by auto
qed

lemma pair_12_01: "{1, 2} \<noteq> {0, 1 :: int}" "{0, 1 :: int} \<noteq> {1, 2}" "{0 :: int} \<noteq> {1, 2}"
proof -
  have "(2 :: int) \<notin> {0, 1}" "(2 :: int) \<notin> {0}" by simp_all
  then show "{1, 2} \<noteq> {0, 1 :: int}" "{0, 1 :: int} \<noteq> {1, 2}" "{0 :: int} \<noteq> {1, 2}"
    by blast+
qed

lemma interactions_count:
  "count_tested interactions_map [] (children interactions_tree)
     \<lparr>tp = 0, fp = 0, tn = 0, fn = 0, tested = {}\<rparr>
   = Inr \<lparr>tp = 0, fp = 1, tn = 0, fn = 1, tested = {{1, 2}, {0, 1}}\<rparr>"
  by (simp add: interactions_tree_def interactions_map_def fdr_leaf_def tested_pair_def
      py_int_eval truthy_def Let_def pair_12_01)

lemma interactions_evaluate:
  "evaluate binary_precision_recall True interactions_map [] closed_tree interactions_tree
     = Inr \<lparr>FDR = 0, POWER = 1, OUTER_NODES_FDR = 0, OUTER_NODES_POWER = 1,
            BASE_FEATURES_FDR = 0, BASE_FEATURES_POWER = 1,
            INTERACTIONS_FDR = 1, INTERACTIONS_POWER = 0\<rparr>"
  by (simp add: evaluate_def get_relevant_rejected_def selected_nodes_def closed_tree_def
      fdr_leaf_def is_leaf_def binary_precision_recall_def
      get_precision_recall_interactions_def interactions_count Let_def)


theorem evaluate_interactions_fallback_witness:
  "evaluate binary_precision_recall True interactions_map [] closed_tree interactions_tree
     = Inr \<lparr>FDR = 0, POWER = 1, OUTER_NODES_FDR = 0, OUTER_NODES_POWER = 1,
            BASE_FEATURES_FDR = 0, BASE_FEATURES_POWER = 1,
            INTERACTIONS_FDR = 1, INTERACTIONS_POWER = 0\<rparr> \<and>
   get_precision_recall_interactions True interactions_map [] interactions_tree = Inr (0, 0)"
proof -
  have "\<not> True \<or>
      (\<exists>st. count_tested interactions_map [] (children interactions_tree)
               \<lparr>tp = 0, fp = 0, tn = 0, fn = 0, tested = {}\<rparr> = Inr st \<and> tp st = 0)"
    using interactions_count by simp
  from evaluate_interactions_fallback [OF interactions_evaluate this] interactions_evaluate
  show ?thesis by simp
qed

text \<open>
  C1 as the claim states it fails with interaction analysis disabled: the (FDR, power) pair
  of the result is (1.0, 0.0), not (0.0, 0.0).
\<close>

theorem evaluate_interactions_counterexample:
  "evaluate binary_precision_recall False interactions_map [] closed_tree interactions_tree
     = Inr \<lparr>FDR = 0, POWER = 1, OUTER_NODES_FDR = 0, OUTER_NODES_POWER = 1,
            BASE_FEATURES_FDR = 0, BASE_FEATURES_POWER = 1,
            INTERACTIONS_FDR = 1, INTERACTIONS_POWER = 0\<rparr> \<and>
   ((1, 0) :: real \<times> real) \<noteq> (0, 0)"
  by (simp add: evaluate_def get_relevant_rejected_def selected_nodes_def closed_tree_def
      fdr_leaf_def is_leaf_def binary_precision_recall_def
      get_precision_recall_interactions_def Let_def)


section \<open>Strings of integers: properties\<close>

lemma digit_of_digit_char: "d < 10 \<Longrightarrow> digit_of (digit_char d) = Some d"
  by (simp add: digit_of_def digit_char_def)

lemma is_digit_digit_char: "d < 10 \<Longrightarrow> is_digit (digit_char d)"
  by (simp add: is_digit_def digit_of_digit_char)

lemma is_digit_not_special:
  "is_digit c \<Longrightarrow> \<not> is_space c \<and> c \<noteq> CHR ''_'' \<and> c \<noteq> CHR ''-'' \<and> c \<noteq> CHR ''+''"
  by (auto simp: is_digit_def digit_of_def is_space_def Let_def split: if_splits)

lemma str_nat_digits: "list_all is_digit (str_nat n)"
proof (induction n rule: str_nat.induct)
  case (1 n)
  show ?case
  proof (cases "n < 10")
    case True
    then show ?thesis by (subst str_nat.simps) (simp add: is_digit_digit_char)
  next
    case False
    with 1 show ?thesis by (subst str_nat.simps) (simp add: is_digit_digit_char)
  qed
qed

lemma str_nat_nonempty: "str_nat n \<noteq> []"
  by (subst str_nat.simps) simp

lemma digits_value_digits:
  "list_all is_digit cs \<Longrightarrow> digits_value acc cs = Some (digits_number acc cs)"
proof (induction cs arbitrary: acc)
  case Nil
  then show ?case by (simp add: digits_number_def)
next
  case (Cons c cs)
  then have c: "is_digit c" and cs: "list_all is_digit cs" by simp_all
  from c obtain v where v: "digit_of c = Some v" by (auto simp: is_digit_def)
  from is_digit_not_special [OF c] have "c \<noteq> CHR ''_''" by simp
  with v Cons.IH [OF cs] show ?case by (simp add: digits_number_def)
qed

lemma literal_value_digits:
  assumes "list_all is_digit cs" and "cs \<noteq> []"
  shows "literal_value cs = Some (digits_number 0 cs)"
proof -
  from assms obtain c ds where cs: "cs = c # ds" by (cases cs) auto
  with assms have c: "is_digit c" and ds: "list_all is_digit ds" by simp_all
  from c obtain v where v: "digit_of c = Some v" by (auto simp: is_digit_def)
  with cs digits_value_digits [OF ds] show ?thesis
    by (simp add: literal_value_def digits_number_def)
qed

lemma digits_number_str_nat: "digits_number 0 (str_nat n) = n"
proof (induction n rule: str_nat.induct)
  case (1 n)
  show ?case
  proof (cases "n < 10")
    case True
    then show ?thesis
      by (subst str_nat.simps) (simp add: digits_number_def digit_of_digit_char)
  next
    case False
    with 1 have "digits_number 0 (str_nat (n div 10)) = n div 10" by simp
    with False show ?thesis
      by (subst str_nat.simps) (simp add: digits_number_def digit_of_digit_char)
  qed
qed

lemma dropWhile_none: "\<forall>x\<in>set xs. \<not> P x \<Longrightarrow> dropWhile P xs = xs"
  by (cases xs) auto

lemma strip_no_space: "\<forall>c\<in>set s. \<not> is_space c \<Longrightarrow> strip s = s"
  by (simp add: strip_def dropWhile_none)

lemma py_int_str: "py_int (str i) = Inr i"
proof (cases "i < 0")
  case True
  let ?s = "str_nat (nat (- i))"
  have d: "list_all is_digit ?s" by (rule str_nat_digits)
  then have "\<forall>c\<in>set (CHR ''-'' # ?s). \<not> is_space c"
    using is_digit_not_special by (auto simp: list_all_iff is_space_def)
  then have "strip (CHR ''-'' # ?s) = CHR ''-'' # ?s" by (rule strip_no_space)
  moreover have "literal_value ?s = Some (nat (- i))"
    using literal_value_digits [OF d str_nat_nonempty] by (simp add: digits_number_str_nat)
  ultimately show ?thesis using True by (simp add: py_int_def str_def)
next
  case False
  let ?s = "str_nat (nat i)"
  have d: "list_all is_digit ?s" by (rule str_nat_digits)
  obtain c cs where s: "?s = c # cs" using str_nat_nonempty [of "nat i"] by (cases ?s) auto
  with d have "is_digit c" by simp
  from is_digit_not_special [OF this] have c: "c \<noteq> CHR ''-''" "c \<noteq> CHR ''+''" by simp_all
  from d have "\<forall>c\<in>set ?s. \<not> is_space c"
    using is_digit_not_special by (auto simp: list_all_iff)
  then have "strip ?s = ?s" by (rule strip_no_space)
  moreover have "literal_value ?s = Some (nat i)"
    using literal_value_digits [OF d str_nat_nonempty] by (simp add: digits_number_str_nat)
  ultimately show ?thesis using False s c by (simp add: py_int_def str_def)
qed


section \<open>Post-order loops: properties\<close>

lemma post_order_for_count:
  "post_order_for body k st t = Inr (t', k', st') \<Longrightarrow>
     k' = k + length (PostOrderIter t) \<and> length (PostOrderIter t') = length (PostOrderIter t)"
  "post_order_for_list body k st ts = Inr (ts', k', st') \<Longrightarrow>
     k' = k + length (concat (map PostOrderIter ts)) \<and>
     length (concat (map PostOrderIter ts')) = length (concat (map PostOrderIter ts))"
proof (induction body k st t and body k st ts arbitrary: t' k' st' and ts' k' st'
    rule: post_order_for_post_order_for_list.induct)
  case (1 body idx st a cs)
  then show ?case by (fastforce split: sum.splits prod.splits)
next
  case (2 body idx st)
  then show ?case by simp
next
  case (3 body idx st c cs)
  then show ?case by (fastforce split: sum.splits prod.splits)
qed

lemma post_order_for_map_tree:
  "\<forall>k st a cs a' st'. body k st a cs = Inr (a', st') \<longrightarrow> f a' = f a \<Longrightarrow>
     post_order_for body k st t = Inr (t', k', st') \<Longrightarrow> map_tree f t' = map_tree f t"
  "\<forall>k st a cs a' st'. body k st a cs = Inr (a', st') \<longrightarrow> f a' = f a \<Longrightarrow>
     post_order_for_list body k st ts = Inr (ts', k', st') \<Longrightarrow>
     map (map_tree f) ts' = map (map_tree f) ts"
proof (induction body k st t and body k st ts arbitrary: t' k' st' and ts' k' st'
    rule: post_order_for_post_order_for_list.induct)
  case (1 body idx st a cs)
  from "1.prems"(2) obtain cs' k1 st1 a' where
    cs: "post_order_for_list body idx st cs = Inr (cs', k1, st1)"
    and b: "body k1 st1 a cs' = Inr (a', st')" and t': "t' = Node a' cs'"
    by (auto split: sum.splits prod.splits)
  from "1.IH" [OF "1.prems"(1) cs] have "map (map_tree f) cs' = map (map_tree f) cs" by simp
  moreover from "1.prems"(1) b have "f a' = f a" by blast
  ultimately show ?case using t' by simp
next
  case (2 body idx st)
  then show ?case by simp
next
  case (3 body idx st c cs)
  from "3.prems"(2) obtain c' k1 st1 cs' where
    c: "post_order_for body idx st c = Inr (c', k1, st1)"
    and cs: "post_order_for_list body k1 st1 cs = Inr (cs', k', st')" and ts': "ts' = c' # cs'"
    by (auto split: sum.splits prod.splits)
  from "3.IH"(1) [OF "3.prems"(1) c] "3.IH"(2) [OF c refl refl "3.prems"(1) cs] ts'
  show ?case by simp
qed

lemma leaves_map_tree: "leaves (map_tree f t) = map (map_tree f) (leaves t)"
proof (induction t)
  case (Node a cs)
  then show ?case by (cases "cs = []") (auto simp: leaves_Node map_concat intro!: arg_cong [where f = concat])
qed

lemma map_tree_leaves_attrs:
  assumes "map_tree f t' = map_tree f t"
  shows "map (\<lambda>l. f (attrs l)) (leaves t') = map (\<lambda>l. f (attrs l)) (leaves t)"
proof -
  have "map (\<lambda>l. f (attrs l)) (leaves u) = map attrs (leaves (map_tree f u))" for u
    by (simp add: leaves_map_tree tree.map_sel o_def)
  with assms show ?thesis by simp
qed


lemma post_order_for_list_length:
  "post_order_for_list body k st ts = Inr (ts', k', st') \<Longrightarrow> length ts' = length ts"
proof (induction ts arbitrary: k st ts')
  case Nil
  then show ?case by simp
next
  case (Cons c cs)
  then show ?case by (fastforce split: sum.splits prod.splits)
qed


lemma in_PreOrderIter_self: "t \<in> set (PreOrderIter t)"
  by (cases t) simp

lemma set_PostOrderIter: "set (PostOrderIter t) = set (PreOrderIter t)"
  by (induction t) auto

lemma length_PostOrderIter: "length (PostOrderIter t) = length (PreOrderIter t)"
proof (induction t)
  case (Node a cs)
  then have "map (\<lambda>c. length (PostOrderIter c)) cs = map (\<lambda>c. length (PreOrderIter c)) cs"
    by simp
  then have "(\<Sum>c\<leftarrow>cs. length (PostOrderIter c)) = (\<Sum>c\<leftarrow>cs. length (PreOrderIter c))"
    by (rule arg_cong)
  then show ?case by (simp add: length_concat o_def)
qed

section \<open>Contiguous node names: properties\<close>

lemma rename_body_idx:
  "rename_body k fm a cs = Inr (a', fm') \<Longrightarrow>
     idx a' = Some (int k) \<and> static_indices a' = static_indices a"
  by (auto simp: rename_body_def Let_def split: option.splits sum.splits if_splits)

lemma rename_body_leaf:
  "rename_body k fm a [] = Inr (a', fm') \<Longrightarrow>
     \<exists>s i. static_indices a = Some s \<and> py_int s = Inr i \<and>
       fm' = AList.update (int k) i fm \<and> name a' = str (int k) \<and>
       num_base_features a' = Some 1 \<and> min_child_idx a' = Some (int k) \<and>
       max_child_idx a' = Some (int k)"
  by (auto simp: rename_body_def Let_def split: option.splits sum.splits)

lemma rename_body_internal:
  "cs \<noteq> [] \<Longrightarrow> rename_body k fm a cs = Inr (a', fm') \<Longrightarrow>
     fm' = fm \<and>
     (\<exists>ns. getattrs num_base_features cs = Inr ns \<and> num_base_features a' = Some (sum_list ns))"
  by (auto simp: rename_body_def Let_def split: option.splits sum.splits)






lemma leaf_mapped_mono:
  "leaf_mapped fm k1 k2 l \<Longrightarrow> k \<le> k1 \<Longrightarrow> k2 \<le> k' \<Longrightarrow>
     (\<forall>j. k1 \<le> j \<and> j < k2 \<longrightarrow> map_of fm' (int j) = map_of fm (int j)) \<Longrightarrow>
     leaf_mapped fm' k k' l"
  unfolding leaf_mapped_def by (metis le_trans less_le_trans)

lemma rename_feature_id_map:
  "post_order_for rename_body k fm t = Inr (t', k', fm') \<Longrightarrow>
     (\<forall>j. j < k \<or> k' \<le> j \<longrightarrow> map_of fm' (int j) = map_of fm (int j)) \<and>
     (\<forall>l\<in>set (leaves t'). leaf_mapped fm' k k' l)"
  "post_order_for_list rename_body k fm ts = Inr (ts', k', fm') \<Longrightarrow>
     (\<forall>j. j < k \<or> k' \<le> j \<longrightarrow> map_of fm' (int j) = map_of fm (int j)) \<and>
     (\<forall>t'\<in>set ts'. \<forall>l\<in>set (leaves t'). leaf_mapped fm' k k' l)"
proof (induction rename_body k fm t and rename_body k fm ts arbitrary: t' k' fm' and ts' k' fm'
    rule: post_order_for_post_order_for_list.induct)
  case (1 k fm a cs)
  from "1.prems" obtain cs' k1 fm1 a' where
    cs: "post_order_for_list rename_body k fm cs = Inr (cs', k1, fm1)"
    and b: "rename_body k1 fm1 a cs' = Inr (a', fm')" and t': "t' = Node a' cs'" "k' = Suc k1"
    by (auto split: sum.splits prod.splits)
  from post_order_for_count(2) [OF cs] have k: "k \<le> k1" by simp
  note ih = "1.hyps" [OF cs]
  show ?case
  proof (cases "cs' = []")
    case True
    from rename_body_leaf [of k1 fm1 a a' fm'] b True obtain s i where
      s: "static_indices a = Some s" "py_int s = Inr i" "fm' = AList.update (int k1) i fm1"
        "name a' = str (int k1)"
      by auto
    from rename_body_idx [OF b] s(1) have a': "idx a' = Some (int k1)" "static_indices a' = Some s"
      by simp_all
    have "leaf_mapped fm' k k' (Node a' [])"
      unfolding leaf_mapped_def using a' s k t'(2) by (auto simp: update_conv')
    moreover have "\<forall>j. j < k \<or> k' \<le> j \<longrightarrow> map_of fm' (int j) = map_of fm (int j)"
      using ih s(3) k t'(2) by (auto simp: update_conv')
    ultimately show ?thesis using True t' by (simp add: leaves_Node)
  next
    case False
    from rename_body_internal [OF False b] have fm': "fm' = fm1" by simp
    have "leaf_mapped fm' k k' l" if "c \<in> set cs'" "l \<in> set (leaves c)" for c l
    proof -
      from ih that have "leaf_mapped fm1 k k1 l" by blast
      then show ?thesis using fm' t'(2) by (auto intro: leaf_mapped_mono)
    qed
    moreover have "\<forall>j. j < k \<or> k' \<le> j \<longrightarrow> map_of fm' (int j) = map_of fm (int j)"
      using ih fm' t'(2) by auto
    ultimately show ?thesis using False t' by (auto simp: leaves_Node)
  qed
next
  case (2 k fm)
  then show ?case by simp
next
  case (3 k fm c cs)
  from "3.prems" obtain c' k1 fm1 cs' where
    c: "post_order_for rename_body k fm c = Inr (c', k1, fm1)"
    and cs: "post_order_for_list rename_body k1 fm1 cs = Inr (cs', k', fm')"
    and ts': "ts' = c' # cs'"
    by (auto split: sum.splits prod.splits)
  from post_order_for_count(1) [OF c] post_order_for_count(2) [OF cs]
  have k: "k \<le> k1" "k1 \<le> k'" by simp_all
  note ih1 = "3.hyps"(1) [OF c] and ih2 = "3.hyps"(2) [OF c refl refl cs]
  have "leaf_mapped fm' k k' l" if "l \<in> set (leaves c')" for l
  proof -
    from ih1 that have "leaf_mapped fm1 k k1 l" by blast
    moreover from ih2 have "\<forall>j. k \<le> j \<and> j < k1 \<longrightarrow> map_of fm' (int j) = map_of fm1 (int j)"
      by simp
    ultimately show ?thesis using k by (auto intro: leaf_mapped_mono)
  qed
  moreover have "leaf_mapped fm' k k' l" if "t \<in> set cs'" "l \<in> set (leaves t)" for t l
  proof -
    from ih2 that have "leaf_mapped fm' k1 k' l" by blast
    then show ?thesis using k by (auto intro: leaf_mapped_mono)
  qed
  moreover have "\<forall>j. j < k \<or> k' \<le> j \<longrightarrow> map_of fm' (int j) = map_of fm (int j)"
    using ih1 ih2 k by (metis le_trans less_le_trans)
  ultimately show ?case using ts' by auto
qed


section \<open>Random hierarchy: properties\<close>

lemma leaves_pair_up:
  "concat (map leaves (fst (pair_up node_count nodes))) = concat (map leaves nodes)"
  by (induction node_count nodes rule: pair_up.induct) (auto simp: leaves_Node split: prod.splits)

lemma pair_up_empty_iff: "fst (pair_up node_count nodes) = [] \<longleftrightarrow> nodes = []"
  by (induction node_count nodes rule: pair_up.induct) (auto split: prod.splits)

lemma pair_rounds_result:
  "concat (map leaves (pair_rounds node_count nodes)) = concat (map leaves nodes) \<and>
   length (pair_rounds node_count nodes) \<le> 1 \<and>
   (pair_rounds node_count nodes = [] \<longleftrightarrow> nodes = [])"
proof (induction node_count nodes rule: pair_rounds.induct)
  case (1 node_count nodes)
  show ?case
  proof (cases "1 < length nodes")
    case True
    obtain parents node_count' where p: "pair_up node_count nodes = (parents, node_count')"
      by (cases "pair_up node_count nodes")
    from "1.IH" [OF True p [symmetric]]
    have ih: "concat (map leaves (pair_rounds node_count' parents)) = concat (map leaves parents)"
      "length (pair_rounds node_count' parents) \<le> 1"
      "pair_rounds node_count' parents = [] \<longleftrightarrow> parents = []" by simp_all
    from p leaves_pair_up [of node_count nodes] pair_up_empty_iff [of node_count nodes]
    have "concat (map leaves parents) = concat (map leaves nodes)" "parents = [] \<longleftrightarrow> nodes = []"
      by simp_all
    with ih True p show ?thesis by (subst (1 2 3) pair_rounds.simps) simp
  next
    case False
    then show ?thesis by (subst (1 2 3) pair_rounds.simps) (cases nodes, auto)
  qed
qed

lemma leaves_feature_leaf: "leaves (feature_leaf i) = [feature_leaf i]"
  by (simp add: feature_leaf_def leaves_Node)

lemma shuffle_ok_perm:
  assumes "shuffle_ok rng g n"
  shows "length (fst (rng_shuffle rng g n)) = n" and "set (fst (rng_shuffle rng g n)) = {0..<n}"
proof -
  from assms have s: "sort (fst (rng_shuffle rng g n)) = [0..<n]" by (simp add: shuffle_ok_def)
  from arg_cong [OF s, of length] show "length (fst (rng_shuffle rng g n)) = n" by simp
  from arg_cong [OF s, of set] show "set (fst (rng_shuffle rng g n)) = {0..<n}" by simp
qed

lemma gen_random_hierarchy_leaves:
  assumes "gen_random_hierarchy rng g num_features = Inr (hierarchy_root, g')"
    and "shuffle_ok rng g (nat num_features)"
  shows "leaves hierarchy_root = map feature_leaf (fst (rng_shuffle rng g (nat num_features)))"
    and "g' = snd (rng_shuffle rng g (nat num_features))"
proof -
  let ?n = "nat num_features"
  let ?nodes = "map feature_leaf [0..<?n]"
  obtain perm g1 where sh: "rng_shuffle rng g ?n = (perm, g1)" by (cases "rng_shuffle rng g ?n")
  let ?shuffled = "map (\<lambda>i. ?nodes ! i) perm"
  from assms(1) sh obtain rest where
    r: "pair_rounds (length ?shuffled) ?shuffled = hierarchy_root # rest" and g': "g' = g1"
    by (auto simp: gen_random_hierarchy_def Let_def split: list.splits)
  from pair_rounds_result [of "length ?shuffled" ?shuffled] r
  have "rest = []" and l: "concat (map leaves [hierarchy_root]) = concat (map leaves ?shuffled)"
    by auto
  from shuffle_ok_perm [OF assms(2)] sh have "\<forall>i\<in>set perm. i < ?n" by auto
  then have "?shuffled = map feature_leaf perm" by simp
  with l have "leaves hierarchy_root = concat (map leaves (map feature_leaf perm))" by simp
  also have "\<dots> = map feature_leaf perm"
    by (induction perm) (simp_all add: leaves_feature_leaf)
  finally show "leaves hierarchy_root = map feature_leaf (fst (rng_shuffle rng g ?n))"
    using sh by simp
  from g' sh show "g' = snd (rng_shuffle rng g ?n)" by simp
qed

lemma gen_random_hierarchy_returns:
  assumes "1 \<le> num_features" and "shuffle_ok rng g (nat num_features)"
  shows "\<exists>hierarchy_root g'. gen_random_hierarchy rng g num_features = Inr (hierarchy_root, g')"
proof -
  let ?n = "nat num_features"
  let ?nodes = "map feature_leaf [0..<?n]"
  obtain perm g1 where sh: "rng_shuffle rng g ?n = (perm, g1)" by (cases "rng_shuffle rng g ?n")
  from shuffle_ok_perm(1) [OF assms(2)] sh assms(1) have "perm \<noteq> []" by auto
  then have "map (\<lambda>i. ?nodes ! i) perm \<noteq> []" by simp
  with pair_rounds_result [of "length (map (\<lambda>i. ?nodes ! i) perm)" "map (\<lambda>i. ?nodes ! i) perm"]
  obtain r rest where "pair_rounds (length (map (\<lambda>i. ?nodes ! i) perm)) (map (\<lambda>i. ?nodes ! i) perm) = r # rest"
    by (cases "pair_rounds (length (map (\<lambda>i. ?nodes ! i) perm)) (map (\<lambda>i. ?nodes ! i) perm)") auto
  with sh show ?thesis by (simp add: gen_random_hierarchy_def Let_def)
qed


section \<open>The hierarchy builder: properties\<close>

lemma str_small: "str 0 = ''0''" "str 1 = ''1''" "str 2 = ''2''" "str 3 = ''3''" "str 4 = ''4''" "str 5 = ''5''"
  by code_simp+

lemma demo_random_run: "gen_random_hierarchy demo_rng () 3 = Inr (demo_random, ())"
  by (simp add: gen_random_hierarchy_def demo_rng_def demo_random_def pair_rounds.simps
      upt_rec [of 0] upt_rec [of 1] upt_rec [of 2] upt_rec [of 3] new_node_def str_small Let_def
      eval_nat_numeral)


lemma feature_leaf_py_int: "py_int (str (int i)) = Inr (int i)"
  by (rule py_int_str)

lemma demo_renamed_run:
  "gen_hierarchy demo_rng () RANDOM True 3 (Inl ValueError)
     = Inr (demo_renamed, [(0, 1), (1, 2), (3, 0)], ())"
proof -
  have p: "py_int ''0'' = Inr 0" "py_int ''1'' = Inr 1" "py_int ''2'' = Inr 2"
    by (simp_all add: py_int_eval)
  show ?thesis
    by (simp add: gen_hierarchy_def demo_random_run demo_random_def demo_renamed_def
        renamed_leaf_def renamed_inner_def feature_leaf_def rename_body_def new_node_def
        str_small p Let_def)
qed


lemma rename_keeps_static_indices:
  "\<forall>k st a cs a' st'. rename_body k st a cs = Inr (a', st') \<longrightarrow> static_indices a' = static_indices a"
  using rename_body_idx by blast

lemma rename_leaves_static_indices:
  assumes "post_order_for rename_body k fm t = Inr (t', k', fm')"
  shows "map (\<lambda>l. static_indices (attrs l)) (leaves t') = map (\<lambda>l. static_indices (attrs l)) (leaves t)"
  by (rule map_tree_leaves_attrs)
     (rule post_order_for_map_tree(1) [OF rename_keeps_static_indices assms])

lemma gen_hierarchy_cases:
  assumes "gen_hierarchy rng g hierarchy_type True num_features clustered
             = Inr (hierarchy_root', feature_id_map, g')"
  shows "\<exists>hierarchy_root n.
    post_order_for rename_body 0 [] hierarchy_root = Inr (hierarchy_root', n, feature_id_map) \<and>
    (hierarchy_type = CLUSTER_FROM_DATA \<longrightarrow> clustered = Inr hierarchy_root) \<and>
    (hierarchy_type = RANDOM \<longrightarrow>
       gen_random_hierarchy rng g num_features = Inr (hierarchy_root, g'))"
  using assms
  by (auto simp: gen_hierarchy_def split: if_splits sum.splits prod.splits)







text \<open>
  C9. When \<^verbatim>\<open>gen_hierarchy\<close> runs with contiguous node names and returns, every leaf has a
  new id, its name is that id, and the feature-id map sends the id to the feature index that
  the leaf's \<^verbatim>\<open>static_indices\<close> holds. For the random hierarchy, where the leaf at position
  \<open>q\<close> was made for the feature \<open>perm ! q\<close> of the shuffle, the feature-id map sends the new
  ids of the leaves, from left to right, to the features \<open>perm\<close>.
\<close>

theorem feature_id_map_roundtrip:
  assumes "gen_hierarchy rng g hierarchy_type True num_features clustered
             = Inr (hierarchy_root', feature_id_map, g')"
  shows "(\<forall>l\<in>set (leaves hierarchy_root').
            \<exists>j s i. idx (attrs l) = Some j \<and> name (attrs l) = str j \<and>
              static_indices (attrs l) = Some s \<and> py_int s = Inr i \<and>
              map_of feature_id_map j = Some i) \<and>
         (hierarchy_type = RANDOM \<and> shuffle_ok rng g (nat num_features) \<longrightarrow>
            map (\<lambda>l. map_of feature_id_map (the (idx (attrs l)))) (leaves hierarchy_root')
              = map (\<lambda>p. Some (int p)) (fst (rng_shuffle rng g (nat num_features))))"
proof -
  from assms obtain hierarchy_root n where
    run: "post_order_for rename_body 0 [] hierarchy_root = Inr (hierarchy_root', n, feature_id_map)"
    and ra: "hierarchy_type = RANDOM \<Longrightarrow>
           gen_random_hierarchy rng g num_features = Inr (hierarchy_root, g')"
    using gen_hierarchy_cases [OF assms] by blast
  from rename_feature_id_map(1) [OF run]
  have lm: "\<forall>l\<in>set (leaves hierarchy_root'). leaf_mapped feature_id_map 0 n l" by simp
  then have first: "\<forall>l\<in>set (leaves hierarchy_root').
            \<exists>j s i. idx (attrs l) = Some j \<and> name (attrs l) = str j \<and>
              static_indices (attrs l) = Some s \<and> py_int s = Inr i \<and>
              map_of feature_id_map j = Some i"
    unfolding leaf_mapped_def by blast
  define F where "F = (\<lambda>x. case x of None \<Rightarrow> None
      | Some s \<Rightarrow> (case py_int s of Inl e \<Rightarrow> None | Inr i \<Rightarrow> Some i))"
  have "map (\<lambda>l. map_of feature_id_map (the (idx (attrs l)))) (leaves hierarchy_root')
      = map (\<lambda>p. Some (int p)) (fst (rng_shuffle rng g (nat num_features)))"
    if "hierarchy_type = RANDOM" "shuffle_ok rng g (nat num_features)"
  proof -
    let ?perm = "fst (rng_shuffle rng g (nat num_features))"
    have "map (\<lambda>l. map_of feature_id_map (the (idx (attrs l)))) (leaves hierarchy_root')
        = map (\<lambda>l. F (static_indices (attrs l))) (leaves hierarchy_root')"
    proof (rule map_cong [OF refl])
      fix l assume "l \<in> set (leaves hierarchy_root')"
      with first obtain j s i where "idx (attrs l) = Some j" "static_indices (attrs l) = Some s"
        "py_int s = Inr i" "map_of feature_id_map j = Some i" by blast
      then show "map_of feature_id_map (the (idx (attrs l))) = F (static_indices (attrs l))"
        by (simp add: F_def)
    qed
    also have "\<dots> = map F (map (\<lambda>l. static_indices (attrs l)) (leaves hierarchy_root'))"
      by simp
    also have "\<dots> = map F (map (\<lambda>l. static_indices (attrs l)) (leaves hierarchy_root))"
      using rename_leaves_static_indices [OF run] by simp
    also have "\<dots> = map F (map (\<lambda>l. static_indices (attrs l)) (map feature_leaf ?perm))"
      using gen_random_hierarchy_leaves(1) [OF ra [OF that(1)] that(2)] by simp
    also have "\<dots> = map (\<lambda>p. Some (int p)) ?perm"
      by (simp add: F_def feature_leaf_def new_node_def py_int_str o_def)
    finally show ?thesis .
  qed
  with first show ?thesis by blast
qed

theorem feature_id_map_roundtrip_witness:
  "gen_hierarchy demo_rng () RANDOM True 3 (Inl ValueError)
     = Inr (demo_renamed, [(0, 1), (1, 2), (3, 0)], ()) \<and>
   shuffle_ok demo_rng () (nat 3) \<and>
   leaves demo_renamed = [renamed_leaf 0 ''1'', renamed_leaf 1 ''2'', renamed_leaf 3 ''0''] \<and>
   map (\<lambda>l. map_of [(0, 1), (1, 2), (3, 0 :: int)] (the (idx (attrs l)))) (leaves demo_renamed)
     = [Some 1, Some 2, Some 0]"
proof -
  have ok: "shuffle_ok demo_rng () (nat 3)"
    by (simp add: shuffle_ok_def demo_rng_def eval_nat_numeral upt_rec [of 0] upt_rec [of 1]
        upt_rec [of 2] upt_rec [of 3])
  have perm: "fst (rng_shuffle demo_rng () (nat 3)) = [1, 2, 0]"
    by (simp add: demo_rng_def eval_nat_numeral upt_rec [of 0] upt_rec [of 1]
        upt_rec [of 2] upt_rec [of 3])
  have l: "leaves demo_renamed = [renamed_leaf 0 ''1'', renamed_leaf 1 ''2'', renamed_leaf 3 ''0'']"
    by (simp add: leaves_def is_leaf_def demo_renamed_def renamed_inner_def renamed_leaf_def)
  have "map (\<lambda>l. map_of [(0, 1), (1, 2), (3, 0 :: int)] (the (idx (attrs l)))) (leaves demo_renamed)
     = map (\<lambda>p. Some (int p)) (fst (rng_shuffle demo_rng () (nat 3)))"
    using feature_id_map_roundtrip [OF demo_renamed_run] ok by blast
  then have m: "map (\<lambda>l. map_of [(0, 1), (1, 2), (3, 0 :: int)] (the (idx (attrs l)))) (leaves demo_renamed)
     = [Some 1, Some 2, Some 0]"
    unfolding perm by simp
  from demo_renamed_run ok l m show ?thesis by blast
qed


section \<open>The relevance map: properties\<close>

lemma keys_update: "fst ` set (AList.update k v al) = insert k (fst ` set al)"
  by (simp add: dom_update)

lemma add_interactions_keys:
  "add_interactions rng sym_features pairs m poly g = Inr (m', poly', g') \<Longrightarrow>
     fst ` set m' = fst ` set m \<union> (\<lambda>pair. {fst pair, snd pair}) ` set pairs"
proof (induction pairs arbitrary: m poly g)
  case Nil
  then show ?case by simp
next
  case (Cons pair pairs)
  obtain coefficient g1 where u: "rng_uniform rng g = (coefficient, g1)"
    by (cases "rng_uniform rng g")
  from Cons.prems u obtain xa xb where
    "add_interactions rng sym_features pairs
       (AList.update {fst pair, snd pair} coefficient m) (poly @ [(coefficient, [xa, xb])]) g1
     = Inr (m', poly', g')"
    by (auto simp: Let_def split: sum.splits)
  from Cons.IH [OF this] show ?case by (auto simp: keys_update)
qed

lemma combinations2_members:
  "(a, b) \<in> set (combinations2 xs) \<Longrightarrow> a \<in> set xs \<and> b \<in> set xs"
  by (induction xs) auto

lemma combinations2_distinct:
  "distinct xs \<Longrightarrow> (a, b) \<in> set (combinations2 xs) \<Longrightarrow> a \<noteq> b"
  by (induction xs) (auto dest: combinations2_members)

lemma update_interaction_terms_run:
  assumes "update_interaction_terms rng g num_interactions relevant_features m sym_features poly
             = Inr (m', poly', g')"
  shows "(m' = m) \<or>
    (\<exists>positions g1.
        rng_choice rng g (length (combinations2 (sorted_list_of_set relevant_features)))
           (interactions_size num_interactions (card relevant_features)) = Inr (positions, g1) \<and>
        add_interactions rng sym_features
          (map (\<lambda>p. combinations2 (sorted_list_of_set relevant_features) ! p) positions) m poly g1
           = Inr (m', poly', g'))"
proof (cases "is_zero (interactions_size num_interactions (card relevant_features))")
  case True
  with assms show ?thesis by (simp add: update_interaction_terms_def Let_def)
next
  case False
  show ?thesis
  proof (cases "rng_choice rng g (length (combinations2 (sorted_list_of_set relevant_features)))
           (interactions_size num_interactions (card relevant_features))")
    case (Inl e)
    with assms False show ?thesis by (simp add: update_interaction_terms_def Let_def)
  next
    case (Inr r)
    obtain positions g1 where r: "r = (positions, g1)" by (cases r)
    with Inr assms False show ?thesis by (simp add: update_interaction_terms_def Let_def)
  qed
qed

lemma pair_set_in:
  assumes "finite relevant_features"
    and "pair \<in> set (combinations2 (sorted_list_of_set relevant_features))"
  shows "\<exists>a b. {fst pair, snd pair} = {a, b} \<and> a \<in> relevant_features \<and>
           b \<in> relevant_features \<and> a \<noteq> b"
proof -
  obtain a b where p: "pair = (a, b)" by (cases pair)
  from assms(1) have d: "distinct (sorted_list_of_set relevant_features)"
    and s: "set (sorted_list_of_set relevant_features) = relevant_features" by simp_all
  from assms(2) p have ab: "(a, b) \<in> set (combinations2 (sorted_list_of_set relevant_features))"
    by simp
  from combinations2_members [OF ab] s have "a \<in> relevant_features" "b \<in> relevant_features"
    by simp_all
  moreover from combinations2_distinct [OF d ab] have "a \<noteq> b" .
  ultimately show ?thesis using p by auto
qed

lemma update_interaction_terms_keys:
  assumes "update_interaction_terms rng g num_interactions relevant_features m sym_features poly
             = Inr (m', poly', g')"
    and "finite relevant_features" and "choice_ok rng"
    and "key \<in> fst ` set m'" and "key \<notin> fst ` set m"
  shows "\<exists>a b. key = {a, b} \<and> a \<in> relevant_features \<and> b \<in> relevant_features \<and> a \<noteq> b"
proof -
  let ?pp = "combinations2 (sorted_list_of_set relevant_features)"
  from update_interaction_terms_run [OF assms(1)] assms(4,5) obtain positions g1 where
    ch: "rng_choice rng g (length ?pp)
           (interactions_size num_interactions (card relevant_features)) = Inr (positions, g1)"
    and ad: "add_interactions rng sym_features (map (\<lambda>p. ?pp ! p) positions) m poly g1
           = Inr (m', poly', g')"
    by blast
  from assms(3) ch have in_range: "\<forall>p\<in>set positions. p < length ?pp"
    unfolding choice_ok_def by blast
  from add_interactions_keys [OF ad] assms(4,5) obtain pair where
    pair: "pair \<in> set (map (\<lambda>p. ?pp ! p) positions)" and key: "key = {fst pair, snd pair}"
    by blast
  from pair in_range have "pair \<in> set ?pp" by auto
  from pair_set_in [OF assms(2) this] key show ?thesis by metis
qed

lemma add_linear_keys:
  "add_linear coefficients fs m = Inr m' \<Longrightarrow>
     fst ` set m' = fst ` set m \<union> (\<lambda>f. {f}) ` set fs"
proof (induction fs arbitrary: m)
  case Nil
  then show ?case by simp
next
  case (Cons f fs)
  from Cons.prems obtain c where
    "add_linear coefficients fs (AList.update {f} c m) = Inr m'"
    by (auto split: sum.splits)
  from Cons.IH [OF this] show ?case by (auto simp: keys_update)
qed



lemma update_linear_terms_run:
  assumes "update_linear_terms rng g num_features include_only relevant_features m sym_features poly
             = Inr (m', poly', g')"
  shows "\<exists>only g1 coefficients.
           interaction_only_features rng g include_only m = Inr (only, g1) \<and>
           add_linear coefficients (sorted_list_of_set (relevant_features - set only)) m = Inr m'"
proof (cases "interaction_only_features rng g include_only m")
  case (Inl e)
  with assms show ?thesis by (simp add: update_linear_terms_def)
next
  case (Inr r)
  obtain only g1 where r: "r = (only, g1)" by (cases r)
  let ?lf = "sorted_list_of_set (relevant_features - set only)"
  obtain vs g2 where u: "rng_uniforms rng g1 (length ?lf) = (vs, g2)"
    by (cases "rng_uniforms rng g1 (length ?lf)")
  from assms Inr r have nn: "\<not> num_features < 0"
    by (auto simp: update_linear_terms_def Let_def)
  show ?thesis
  proof (cases "np_assign (replicate (nat num_features) 0) ?lf vs")
    case (Inl e)
    with assms Inr r u nn show ?thesis by (simp add: update_linear_terms_def Let_def)
  next
    case c: (Inr coefficients)
    show ?thesis
    proof (cases "add_linear coefficients ?lf m")
      case (Inl e)
      with assms Inr r u nn c show ?thesis by (simp add: update_linear_terms_def Let_def)
    next
      case a: (Inr m2)
      with assms Inr r u nn c have "m2 = m'" by (simp add: update_linear_terms_def Let_def)
      with a Inr r show ?thesis by auto
    qed
  qed
qed

lemma update_linear_terms_keys:
  assumes "update_linear_terms rng g num_features include_only relevant_features m sym_features poly
             = Inr (m', poly', g')"
    and "finite relevant_features"
  shows "\<exists>only g1. interaction_only_features rng g include_only m = Inr (only, g1) \<and>
           fst ` set m' = fst ` set m \<union> (\<lambda>f. {f}) ` (relevant_features - set only)"
proof -
  from update_linear_terms_run [OF assms(1)] obtain only g1 coefficients where
    io: "interaction_only_features rng g include_only m = Inr (only, g1)"
    and al: "add_linear coefficients (sorted_list_of_set (relevant_features - set only)) m = Inr m'"
    by blast
  from assms(2) have "set (sorted_list_of_set (relevant_features - set only))
      = relevant_features - set only" by simp
  with add_linear_keys [OF al] have
    "fst ` set m' = fst ` set m \<union> (\<lambda>f. {f}) ` (relevant_features - set only)" by simp
  with io show ?thesis by blast
qed


lemma gen_polynomial_run:
  assumes "gen_polynomial rng g num_features num_interactions include_only nt relevant_features
             = Inr (sym_vars, relevant_feature_map, polynomial_fn, g')"
  shows "\<exists>m1 p1 g1 p2 g2.
           update_interaction_terms rng g num_interactions relevant_features []
             (map Feature [0..<nat num_features]) [] = Inr (m1, p1, g1) \<and>
           update_linear_terms rng g1 num_features include_only relevant_features m1
             (map Feature [0..<nat num_features]) p1 = Inr (relevant_feature_map, p2, g2)"
proof (cases "update_interaction_terms rng g num_interactions relevant_features []
             (map Feature [0..<nat num_features]) []")
  case (Inl e)
  with assms show ?thesis by (simp add: gen_polynomial_def Let_def)
next
  case (Inr r)
  obtain m1 p1 g1 where r: "r = (m1, p1, g1)" by (cases r)
  show ?thesis
  proof (cases "update_linear_terms rng g1 num_features include_only relevant_features m1
             (map Feature [0..<nat num_features]) p1")
    case (Inl e)
    with assms Inr r show ?thesis by (simp add: gen_polynomial_def Let_def)
  next
    case l: (Inr r2)
    obtain m2 p2 g2 where r2: "r2 = (m2, p2, g2)" by (cases r2)
    from assms Inr r l r2 have "m2 = relevant_feature_map"
      by (auto simp: gen_polynomial_def Let_def split: if_splits)
    with Inr r l r2 show ?thesis by auto
  qed
qed

text \<open>
  C6. For the relevance map that \<^verbatim>\<open>gen_polynomial\<close> returns (the set of relevant features
  being finite and \<^verbatim>\<open>rng.choice\<close> returning positions of its population), with
  \<open>only\<close> the \<^verbatim>\<open>interaction_only_features\<close> chosen in \<^verbatim>\<open>update_linear_terms\<close>: every member
  of every key of size 2 is the member of a key of size 1, or is in \<open>only\<close>; and no member
  of \<open>only\<close> is the member of a key of size 1.
\<close>

theorem relevance_map_interaction_only:
  assumes "gen_polynomial rng g num_features num_interactions include_only nt relevant_features
             = Inr (sym_vars, relevant_feature_map, polynomial_fn, g')"
    and "finite relevant_features" and "choice_ok rng"
  shows "\<exists>m1 p1 g1 only g2.
           update_interaction_terms rng g num_interactions relevant_features []
             (map Feature [0..<nat num_features]) [] = Inr (m1, p1, g1) \<and>
           interaction_only_features rng g1 include_only m1 = Inr (only, g2) \<and>
           (\<forall>key\<in>fst ` set relevant_feature_map. card key = 2 \<longrightarrow>
              (\<forall>x\<in>key. {x} \<in> fst ` set relevant_feature_map \<or> x \<in> set only)) \<and>
           (\<forall>x\<in>set only. {x} \<notin> fst ` set relevant_feature_map)"
proof -
  let ?sf = "map Feature [0..<nat num_features]"
  from gen_polynomial_run [OF assms(1)] obtain m1 p1 g1 p2 g2 where
    ui: "update_interaction_terms rng g num_interactions relevant_features [] ?sf []
           = Inr (m1, p1, g1)"
    and ul: "update_linear_terms rng g1 num_features include_only relevant_features m1 ?sf p1
           = Inr (relevant_feature_map, p2, g2)"
    by blast
  from update_linear_terms_keys [OF ul assms(2)] obtain only where
    "\<exists>g3. interaction_only_features rng g1 include_only m1 = Inr (only, g3) \<and>
       fst ` set relevant_feature_map
         = fst ` set m1 \<union> (\<lambda>f. {f}) ` (relevant_features - set only)" ..
  then obtain g3 where both:
    "interaction_only_features rng g1 include_only m1 = Inr (only, g3) \<and>
       fst ` set relevant_feature_map
         = fst ` set m1 \<union> (\<lambda>f. {f}) ` (relevant_features - set only)" ..
  from both have io: "interaction_only_features rng g1 include_only m1 = Inr (only, g3)" ..
  from both have keys: "fst ` set relevant_feature_map
                 = fst ` set m1 \<union> (\<lambda>f. {f}) ` (relevant_features - set only)" ..
  have pairs: "\<exists>a b. key = {a, b} \<and> a \<in> relevant_features \<and> b \<in> relevant_features \<and> a \<noteq> b"
    if "key \<in> fst ` set m1" for key
    by (rule update_interaction_terms_keys [OF ui assms(2,3) that]) simp
  have one: "{x} \<in> fst ` set relevant_feature_map \<or> x \<in> set only"
    if k: "key \<in> fst ` set relevant_feature_map" and c: "card key = 2" and x: "x \<in> key"
    for key x
  proof -
    from k have "key \<in> fst ` set m1 \<or> key \<in> (\<lambda>f. {f}) ` (relevant_features - set only)"
      unfolding keys by blast
    moreover have "key \<notin> (\<lambda>f. {f}) ` (relevant_features - set only)"
    proof
      assume "key \<in> (\<lambda>f. {f}) ` (relevant_features - set only)"
      then obtain f where "key = {f}" by blast
      with c show False by simp
    qed
    ultimately have "key \<in> fst ` set m1" by blast
    from pairs [OF this] x have xr: "x \<in> relevant_features" by blast
    show ?thesis
    proof (cases "x \<in> set only")
      case True
      then show ?thesis by blast
    next
      case False
      with xr have "{x} \<in> (\<lambda>f. {f}) ` (relevant_features - set only)" by blast
      then have "{x} \<in> fst ` set relevant_feature_map" unfolding keys by blast
      then show ?thesis by blast
    qed
  qed
  have two: "{x} \<notin> fst ` set relevant_feature_map" if xo: "x \<in> set only" for x
  proof
    assume "{x} \<in> fst ` set relevant_feature_map"
    then have "{x} \<in> fst ` set m1 \<union> (\<lambda>f. {f}) ` (relevant_features - set only)"
      by (simp only: keys)
    then have "{x} \<in> fst ` set m1 \<or> {x} \<in> (\<lambda>f. {f}) ` (relevant_features - set only)"
      by (simp only: Un_iff)
    then show False
    proof
      assume "{x} \<in> fst ` set m1"
      from pairs [OF this] obtain a b where ab: "{x} = {a, b}" "a \<noteq> b" by auto
      have "a \<in> {a, b}" "b \<in> {a, b}" by simp_all
      then have "a \<in> {x}" "b \<in> {x}" by (simp_all only: ab(1))
      then have "a = x" "b = x" by simp_all
      with ab(2) show False by simp
    next
      assume "{x} \<in> (\<lambda>f. {f}) ` (relevant_features - set only)"
      then obtain f where f: "{x} = {f}" "f \<in> relevant_features - set only" by (rule imageE)
      from f(1) have "x = f" by simp
      with f(2) xo show False by simp
    qed
  qed
  have first: "\<forall>key\<in>fst ` set relevant_feature_map. card key = 2 \<longrightarrow>
              (\<forall>x\<in>key. {x} \<in> fst ` set relevant_feature_map \<or> x \<in> set only)"
    by (intro ballI impI) (rule one)
  have second: "\<forall>x\<in>set only. {x} \<notin> fst ` set relevant_feature_map"
    by (intro ballI) (rule two)
  from ui io first second show ?thesis by (intro exI conjI)
qed

lemma choice_ok_demo: "choice_ok demo_rng"
  by (auto simp: choice_ok_def demo_rng_def split: py_number.splits if_splits)

lemma sorted_123: "sorted_list_of_set {1, 2, 3 :: int} = [1, 2, 3]"
  "sorted_list_of_set {1, 2 :: int} = [1, 2]" "sorted_list_of_set ({1, 2, 3} - {1 :: int}) = [2, 3]"
  by code_simp+

lemma poly_interactions_run:
  "update_interaction_terms demo_rng () 1 {1, 2, 3} [] (map Feature [0..<nat 4]) []
     = Inr ([({1, 2}, 1 / 2)], [(1 / 2, [Feature 1, Feature 2])], ())"
  by (simp add: update_interaction_terms_def interactions_size_def is_zero_def sorted_123
      demo_rng_def py_index_def Let_def eval_nat_numeral upt_rec [of 0] upt_rec [of 1]
      upt_rec [of 2] upt_rec [of 3] upt_rec [of 4])

lemma poly_only_run:
  "interaction_only_features demo_rng () True [({1, 2}, 1 / 2)] = Inr ([1], ())"
  by (simp add: interaction_only_features_def sorted_123 demo_rng_def Let_def)


lemma poly_linear_run:
  "update_linear_terms demo_rng () 4 True {1, 2, 3} [({1, 2}, 1 / 2)] (map Feature [0..<nat 4])
     [(1 / 2, [Feature 1, Feature 2])] = Inr (poly_map, poly_expr, ())"
proof -
  have s: "sorted_list_of_set ({1, 2, 3} - set [1 :: int]) = [2, 3]"
    using sorted_123(3) by simp
  have k: "{2} \<noteq> {1, 2 :: int}" "{3} \<noteq> {1, 2 :: int}" "{3} \<noteq> {2 :: int}"
    by auto
  show ?thesis
    unfolding update_linear_terms_def poly_only_run
    by (simp add: s k demo_rng_def py_index_def poly_map_def poly_expr_def Let_def
        eval_nat_numeral upt_rec [of 0] upt_rec [of 1] upt_rec [of 2] upt_rec [of 3]
        upt_rec [of 4])
qed

lemma poly_run:
  "gen_polynomial demo_rng () 4 1 True NO_NOISE {1, 2, 3}
     = Inr ((map Feature [0..<nat 4], [], poly_expr), poly_map, poly_expr, ())"
  unfolding gen_polynomial_def Let_def poly_interactions_run sum.case prod.case poly_linear_run
  by (simp only: simp_thms if_True)

theorem relevance_map_interaction_only_witness:
  "gen_polynomial demo_rng () 4 1 True NO_NOISE {1, 2, 3}
     = Inr ((map Feature [0..<nat 4], [], poly_expr), poly_map, poly_expr, ()) \<and>
   finite {1, 2, 3 :: int} \<and> choice_ok demo_rng \<and>
   interaction_only_features demo_rng () True [({1, 2}, 1 / 2)] = Inr ([1], ()) \<and>
   {1} \<notin> fst ` set poly_map \<and> {2} \<in> fst ` set poly_map"
proof -
  have f: "finite {1, 2, 3 :: int}" by simp
  from relevance_map_interaction_only [OF poly_run f choice_ok_demo]
  obtain m1 p1 g1 only g2 where
    ui: "update_interaction_terms demo_rng () 1 {1, 2, 3} [] (map Feature [0..<nat 4]) []
           = Inr (m1, p1, g1)"
    and io: "interaction_only_features demo_rng g1 True m1 = Inr (only, g2)"
    and one: "\<forall>key\<in>fst ` set poly_map. card key = 2 \<longrightarrow>
              (\<forall>x\<in>key. {x} \<in> fst ` set poly_map \<or> x \<in> set only)"
    and two: "\<forall>x\<in>set only. {x} \<notin> fst ` set poly_map"
    by iprover
  from ui [unfolded poly_interactions_run] have m1: "m1 = [({1, 2}, 1 / 2)]" by simp
  from io have only: "only = [1]" by (simp add: m1 poly_only_run)
  have "1 \<in> set only" unfolding only by simp
  with two have n1: "{1} \<notin> fst ` set poly_map" by (rule bspec)
  have k: "{1, 2} \<in> fst ` set poly_map" by (simp add: poly_map_def)
  have c: "card {1, 2 :: int} = 2" by simp
  have x: "(2 :: int) \<in> {1, 2}" by simp
  from one k have "card {1, 2 :: int} = 2 \<longrightarrow>
      (\<forall>x\<in>{1, 2}. {x} \<in> fst ` set poly_map \<or> x \<in> set only)" by (rule bspec)
  with c have "\<forall>x\<in>{1, 2}. {x} \<in> fst ` set poly_map \<or> x \<in> set only" by (rule rev_mp)
  from this x have "{2} \<in> fst ` set poly_map \<or> 2 \<in> set only" by (rule bspec)
  then have n2: "{2} \<in> fst ` set poly_map" unfolding only by simp
  from poly_run f choice_ok_demo poly_only_run n1 n2 show ?thesis by (intro conjI)
qed


end
